theory Spec2Isabelle
  imports Main "HOL-Library.Word"
begin

section \<open>Strings\<close>

text \<open>
  Go strings are byte sequences; they are modelled as \<open>string\<close> (a \<open>char list\<close>, one
  \<open>char\<close> per byte). The functions of package \<open>strings\<close> that \<open>main.go\<close> calls follow.
\<close>

text \<open>\<open>strings.IndexByte(s, c)\<close>: the index of the first \<open>c\<close> in \<open>s\<close>, or \<open>-1\<close>.\<close>

fun IndexByte :: "string \<Rightarrow> char \<Rightarrow> int" where
  "IndexByte [] c = - 1"
| "IndexByte (x # xs) c =
     (if x = c then 0 else if IndexByte xs c < 0 then - 1 else IndexByte xs c + 1)"

text \<open>\<open>strings.LastIndex(s, ".")\<close>: the index of the last \<open>c\<close> in \<open>s\<close>, or \<open>-1\<close>.\<close>

definition LastIndexByte :: "string \<Rightarrow> char \<Rightarrow> int" where
  "LastIndexByte s c =
     (if IndexByte (rev s) c < 0 then - 1 else int (length s) - 1 - IndexByte (rev s) c)"

definition HasPrefix :: "string \<Rightarrow> string \<Rightarrow> bool" where
  "HasPrefix s p = (length p \<le> length s \<and> take (length p) s = p)"

definition HasSuffix :: "string \<Rightarrow> string \<Rightarrow> bool" where
  "HasSuffix s p = (length p \<le> length s \<and> drop (length s - length p) s = p)"

fun Contains :: "string \<Rightarrow> string \<Rightarrow> bool" where
  "Contains [] sub = (sub = [])"
| "Contains (x # xs) sub = (HasPrefix (x # xs) sub \<or> Contains xs sub)"

text \<open>The slice \<open>s[i:]\<close> for an index \<open>0 \<le> i \<le> len(s)\<close>.\<close>

definition slice_from :: "string \<Rightarrow> int \<Rightarrow> string" where
  "slice_from s i = drop (nat i) s"

section \<open>Errors\<close>

datatype error =
    EmptyLabel string
  | CannotDerive string
  | InvalidSuffix string string
  | NoSNIInfo
  | NoCachedAddr
  | Failure string

section \<open>The public suffix library\<close>

text \<open>
  Modelled from the spec: \<open>publicsuffix.EffectiveTLDPlusOne\<close> of
  \<open>golang.org/x/net/publicsuffix\<close> is imported by \<open>main.go\<close> and is not among the
  sources. It is the eTLD+1 of the glossary, "the domain one label below the effective
  top-level domain per the public suffix list", and fails on a name with an empty label
  or with no label below its public suffix. The public suffix list itself is the parameter
  \<open>ps\<close>: \<open>ps domain\<close> is the public suffix the list assigns to \<open>domain\<close>. Only the length
  of \<open>ps domain\<close> is used, and the byte before the suffix must be a dot.
\<close>

definition EffectiveTLDPlusOne :: "(string \<Rightarrow> string) \<Rightarrow> string \<Rightarrow> error + string" where
  "EffectiveTLDPlusOne ps domain =
     (if HasPrefix domain ''.'' \<or> HasSuffix domain ''.'' \<or> Contains domain ''..''
      then Inl (EmptyLabel domain)
      else if length domain \<le> length (ps domain) then Inl (CannotDerive domain)
      else if domain ! (length domain - length (ps domain) - 1) \<noteq> CHR ''.''
      then Inl (InvalidSuffix (ps domain) domain)
      else Inr (slice_from domain
             (1 + LastIndexByte (take (length domain - length (ps domain) - 1) domain) CHR ''.'')))"

text \<open>
  The prevailing rule \<open>*\<close> of the public suffix list: the public suffix of a name that no
  other rule matches is its last label. It is the list used in the examples below
  (for \<open>com\<close>, \<open>net\<close> and the like it agrees with the published list).
\<close>

definition lastLabel :: "string \<Rightarrow> string" where
  "lastLabel domain = slice_from domain (1 + LastIndexByte domain CHR ''.'')"

section \<open>Domain matcher\<close>

text \<open>
  \<open>proxyAddr\<close> is a \<open>map[string]struct{}\<close>, that is a set of strings; the global is passed
  as an argument. The loop of \<open>needsProxy\<close>
  \<^verbatim>\<open>
  for domain != secondary {
      dot := strings.IndexByte(domain, '.')
      domain = domain[dot+1:]
      if _, ok := proxyAddr[domain]; ok { return true }
  }
  return false
  \<close>
  has no bound of its own, so it is a partial function: \<open>None\<close> is a loop that never
  returns.
\<close>

partial_function (option) needsProxy_loop :: "string set \<Rightarrow> string \<Rightarrow> string \<Rightarrow> bool option" where
  "needsProxy_loop proxyAddr domain secondary =
     (if domain \<noteq> secondary
      then (if slice_from domain (IndexByte domain CHR ''.'' + 1) \<in> proxyAddr then Some True
            else needsProxy_loop proxyAddr
                   (slice_from domain (IndexByte domain CHR ''.'' + 1)) secondary)
      else Some False)"

declare needsProxy_loop.simps [code]

definition needsProxy :: "(string \<Rightarrow> string) \<Rightarrow> string set \<Rightarrow> string \<Rightarrow> bool option" where
  "needsProxy ps proxyAddr domain =
     (if domain \<in> proxyAddr then Some True
      else case EffectiveTLDPlusOne ps domain of
             Inl err \<Rightarrow> Some False
           | Inr secondary \<Rightarrow> needsProxy_loop proxyAddr domain secondary)"


text \<open>
  The error branch of \<open>needsProxy\<close> also writes a log line; the lines are kept apart from
  the returned value.
\<close>

datatype level = DebugLevel | InfoLevel | WarnLevel | ErrorLevel

section \<open>DNS messages\<close>

text \<open>
  The types of \<open>github.com/miekg/dns\<close> that \<open>main.go\<close> builds and reads. An IP address
  (\<open>net.IP\<close>) is a byte slice. The header field \<open>Name\<close> of \<open>RR_Header\<close> is \<open>Hdr_Name\<close>
  here and \<open>Id\<close> of \<open>MsgHdr\<close> is \<open>Msg_Id\<close>, since field names are global.
\<close>

type_synonym IP = "8 word list"

record dns_Question =
  Name :: string
  Qtype :: "16 word"
  Qclass :: "16 word"

record RR_Header =
  Hdr_Name :: string
  Rrtype :: "16 word"
  Class :: "16 word"
  Ttl :: "32 word"
  Rdlength :: "16 word"

text \<open>\<open>dns.RR\<close> is an interface; the code type-switches on \<open>*dns.A\<close> and \<open>*dns.AAAA\<close>.\<close>

datatype RR = RR_A RR_Header IP | RR_AAAA RR_Header IP | RR_Other RR_Header

record dns_Msg =
  Msg_Id :: "16 word"
  Response :: bool
  Opcode :: int
  Authoritative :: bool
  Truncated :: bool
  RecursionDesired :: bool
  RecursionAvailable :: bool
  Zero :: bool
  AuthenticatedData :: bool
  CheckingDisabled :: bool
  Rcode :: int
  Compress :: bool
  Question :: "dns_Question list"
  Answer :: "RR list"
  Ns :: "RR list"
  Extra :: "RR list"

definition TypeA :: "16 word" where "TypeA = 1"
definition TypeAAAA :: "16 word" where "TypeAAAA = 28"
definition ClassINET :: "16 word" where "ClassINET = 1"
definition OpcodeQuery :: int where "OpcodeQuery = 0"
definition RcodeSuccess :: int where "RcodeSuccess = 0"

text \<open>\<open>new(dns.Msg)\<close>: every field has its zero value.\<close>

definition new_Msg :: dns_Msg where
  "new_Msg = \<lparr>Msg_Id = 0, Response = False, Opcode = 0, Authoritative = False,
     Truncated = False, RecursionDesired = False, RecursionAvailable = False, Zero = False,
     AuthenticatedData = False, CheckingDisabled = False, Rcode = 0, Compress = False,
     Question = [], Answer = [], Ns = [], Extra = []\<rparr>"

text \<open>
  Modelled from the spec: \<open>(*dns.Msg).SetReply\<close> of \<open>github.com/miekg/dns\<close> is not among
  the sources. It makes the receiver a reply to the request: same id and opcode, response
  bit set, the recursion-desired and checking-disabled bits copied for a standard query,
  success code, and the "question section preserved" (its first question).
\<close>

definition SetReply :: "dns_Msg \<Rightarrow> dns_Msg \<Rightarrow> dns_Msg" where
  "SetReply msg request =
     (let m1 = msg\<lparr>Msg_Id := Msg_Id request, Response := True, Opcode := Opcode request\<rparr>;
          m2 = (if Opcode m1 = OpcodeQuery
                then m1\<lparr>RecursionDesired := RecursionDesired request,
                        CheckingDisabled := CheckingDisabled request\<rparr>
                else m1);
          m3 = m2\<lparr>Rcode := RcodeSuccess\<rparr>
      in if length (Question request) > 0 then m3\<lparr>Question := [hd (Question request)]\<rparr>
         else m3)"

text \<open>\<open>dns.Fqdn\<close>: the name with a trailing dot.\<close>

definition Fqdn :: "string \<Rightarrow> string" where
  "Fqdn s = (if s \<noteq> [] \<and> last s = CHR ''.'' then s else s @ ''.'')"

text \<open>\<open>net.IPv4(127, 0, 0, 1)\<close> (the 16-byte form) and \<open>net.IPv6loopback\<close>.\<close>

definition IPv4 :: "8 word \<Rightarrow> 8 word \<Rightarrow> 8 word \<Rightarrow> 8 word \<Rightarrow> IP" where
  "IPv4 a b c d = [0, 0, 0, 0, 0, 0, 0, 0, 0, 0, 0xff, 0xff, a, b, c, d]"

definition IPv6loopback :: IP where
  "IPv6loopback = [0, 0, 0, 0, 0, 0, 0, 0, 0, 0, 0, 0, 0, 0, 0, 1]"

text \<open>\<open>net.JoinHostPort\<close>: a host with a colon is an IPv6 literal and is bracketed.\<close>

definition JoinHostPort :: "string \<Rightarrow> string \<Rightarrow> string" where
  "JoinHostPort host port =
     (if IndexByte host CHR '':'' \<ge> 0 then ''['' @ host @ '']:'' @ port
      else host @ '':'' @ port)"

section \<open>Events and outcomes\<close>

text \<open>
  Times are nanoseconds (\<open>time.Time\<close> as an instant, \<open>time.Duration\<close> as a length).
  Keys, serial numbers and DER bytes are opaque values produced by the environment.
\<close>

type_synonym time = int
type_synonym key = nat

record pkix_Name =
  CommonName :: string
  Country :: "string list"

datatype ExtKeyUsage = ExtKeyUsageAny | ExtKeyUsageServerAuth | ExtKeyUsageClientAuth

record x509_Certificate =
  SerialNumber :: nat
  Subject :: pkix_Name
  NotBefore :: time
  NotAfter :: time
  ExtKeyUsage :: "ExtKeyUsage list"
  BasicConstraintsValid :: bool
  DNSNames :: "string list"

record tls_Certificate =
  Certificate :: "8 word list list"
  PrivateKey :: key

text \<open>
  What a handler does to the outside world, in order: log lines (the level, the text, and
  the error value printed if any), DNS messages sent, certificates signed and served,
  the per-host mutex, outbound dials, the relay, and closing of the two connections.
\<close>

datatype event =
    Log level string "error option"
  | Exchange string dns_Msg
  | WriteMsg dns_Msg
  | CreateCertificate x509_Certificate key
  | SendCertificate tls_Certificate
  | LoadOrStore_resolvLock string
  | Lock string
  | Unlock string
  | DialWithDialer string
  | Copy_both_ways
  | Close_i
  | Close_conn

text \<open>
  How a function ends: it returns, it panics (a Go run-time panic), or it ends the process
  through \<open>log.Fatal\<close> (the message is logged, then \<open>os.Exit(1)\<close>).
\<close>

datatype panic = IndexOutOfRange | SliceBoundsOutOfRange

datatype 'a outcome = Return 'a | Panic panic | Exit error

definition needsProxy_log :: "(string \<Rightarrow> string) \<Rightarrow> string set \<Rightarrow> string \<Rightarrow> event list" where
  "needsProxy_log ps proxyAddr domain =
     (if domain \<in> proxyAddr then []
      else case EffectiveTLDPlusOne ps domain of
             Inl err \<Rightarrow> [Log ErrorLevel (''hostname invalid: '' @ domain) None]
           | Inr secondary \<Rightarrow> [])"

section \<open>Secure resolver\<close>

definition defDNS :: string where "defDNS = ''114.114.114.114:53''"
definition gfwDNS :: string where "gfwDNS = ''8.8.8.8:853''"
definition cacheAddrTtl :: int where "cacheAddrTtl = 5 * 60 * 1000000000"
definition certExpire :: int where "certExpire = 3600 * 1000000000 * 24 * 30"

record Resolv =
  addr :: string
  expire :: time

definition Expired :: "Resolv \<Rightarrow> time \<Rightarrow> bool" where
  "Expired r now = (expire r < now)"

text \<open>
  The environment of \<open>resolveRealIP\<close>: what \<open>cli.Exchange(q, gfwDNS)\<close> returns for a
  query, \<open>net.IP.String\<close>, and the value of the \<open>k\<close>-th call of \<open>time.Now()\<close>.
\<close>

record resolve_env =
  Exchange_gfw :: "dns_Msg \<Rightarrow> error + dns_Msg"
  IP_String :: "IP \<Rightarrow> string"
  Now :: "nat \<Rightarrow> time"

text \<open>
  The two loops over \<open>r.Answer\<close>; each appended entry calls \<open>time.Now()\<close> once, so the
  entry appended to \<open>ret\<close> takes the call numbered \<open>length ret\<close>.
\<close>

fun append_AAAA :: "resolve_env \<Rightarrow> Resolv list \<Rightarrow> RR list \<Rightarrow> Resolv list" where
  "append_AAAA env ret [] = ret"
| "append_AAAA env ret (ans # rest) =
     (case ans of
        RR_AAAA hdr ip \<Rightarrow>
          append_AAAA env
            (ret @ [\<lparr>addr = JoinHostPort (IP_String env ip) ''443'',
                     expire = Now env (length ret) + cacheAddrTtl\<rparr>]) rest
      | _ \<Rightarrow> append_AAAA env ret rest)"

fun append_A :: "resolve_env \<Rightarrow> Resolv list \<Rightarrow> RR list \<Rightarrow> Resolv list" where
  "append_A env ret [] = ret"
| "append_A env ret (ans # rest) =
     (case ans of
        RR_A hdr ip \<Rightarrow>
          append_A env
            (ret @ [\<lparr>addr = JoinHostPort (IP_String env ip) ''443'',
                     expire = Now env (length ret) + cacheAddrTtl\<rparr>]) rest
      | _ \<Rightarrow> append_A env ret rest)"

definition query :: "string \<Rightarrow> 16 word \<Rightarrow> dns_Msg" where
  "query host qtype =
     new_Msg\<lparr>RecursionDesired := True,
             Question := [\<lparr>Name = Fqdn host, Qtype = qtype, Qclass = ClassINET\<rparr>]\<rparr>"

definition resolveRealIP :: "resolve_env \<Rightarrow> string \<Rightarrow> Resolv list \<times> event list" where
  "resolveRealIP env host =
     (case Exchange_gfw env (query host TypeAAAA) of
        Inl err \<Rightarrow> ([], [Exchange gfwDNS (query host TypeAAAA), Log WarnLevel [] (Some err)])
      | Inr r \<Rightarrow>
          (let ret = append_AAAA env [] (Answer r) in
           case Exchange_gfw env (query host TypeA) of
             Inl err \<Rightarrow>
               (ret, [Exchange gfwDNS (query host TypeAAAA), Exchange gfwDNS (query host TypeA),
                      Log WarnLevel [] (Some err)])
           | Inr r' \<Rightarrow>
               (append_A env ret (Answer r'),
                [Exchange gfwDNS (query host TypeAAAA), Exchange gfwDNS (query host TypeA)])))"


section \<open>Plain resolver responder\<close>

text \<open>
  The environment of \<open>forwardDns\<close>: what \<open>cli.Exchange(m, defDNS)\<close> returns and whether
  \<open>w.WriteMsg\<close> fails.
\<close>

record dns_env =
  Exchange_def :: "dns_Msg \<Rightarrow> error + dns_Msg"
  WriteMsg_err :: "dns_Msg \<Rightarrow> error option"

definition write_reply :: "dns_env \<Rightarrow> dns_Msg \<Rightarrow> event list" where
  "write_reply env msg =
     WriteMsg msg #
     (case WriteMsg_err env msg of None \<Rightarrow> [] | Some err \<Rightarrow> [Log ErrorLevel [] (Some err)])"

definition forward_upstream :: "dns_env \<Rightarrow> dns_Msg \<Rightarrow> event list" where
  "forward_upstream env m =
     (case Exchange_def env m of
        Inl err \<Rightarrow> [Exchange defDNS m, Log WarnLevel [] (Some err)]
      | Inr r \<Rightarrow> Exchange defDNS m # write_reply env r)"

text \<open>The reply built for an in-policy question (the body of the inner \<open>if\<close>).\<close>

definition loopback_reply :: "dns_Msg \<Rightarrow> dns_Msg" where
  "loopback_reply m =
     (let domain = Name (Question m ! 0);
          msg = (SetReply new_Msg m)\<lparr>Authoritative := True\<rparr>;
          hdr = \<lparr>Hdr_Name = domain, Rrtype = Qtype (Question m ! 0), Class = ClassINET,
                 Ttl = 60, Rdlength = 0\<rparr>
      in if Qtype (Question m ! 0) = TypeA
         then msg\<lparr>Answer := [RR_A hdr (IPv4 127 0 0 1)]\<rparr>
         else if Qtype (Question m ! 0) = TypeAAAA
         then msg\<lparr>Answer := [RR_AAAA hdr IPv6loopback]\<rparr>
         else msg)"

text \<open>
  \<open>m.Question[0]\<close> on an empty slice and \<open>domain[:len(domain)-1]\<close> on an empty string
  panic; more than one question is \<open>log.Fatal\<close>. \<open>None\<close> is a call of \<open>needsProxy\<close> that
  does not return.
\<close>

definition forwardDns ::
  "(string \<Rightarrow> string) \<Rightarrow> dns_env \<Rightarrow> string set \<Rightarrow> dns_Msg \<Rightarrow> (event list \<times> unit outcome) option"
where
  "forwardDns ps env proxyAddr m =
     (if length (Question m) > 1 then Some ([], Exit (Failure ''too many questions''))
      else if Question m = [] then Some ([], Panic IndexOutOfRange)
      else if Qtype (Question m ! 0) = TypeA \<or> Qtype (Question m ! 0) = TypeAAAA
      then (if Name (Question m ! 0) = [] then Some ([], Panic SliceBoundsOutOfRange)
            else case needsProxy ps proxyAddr (butlast (Name (Question m ! 0))) of
                   None \<Rightarrow> None
                 | Some True \<Rightarrow>
                     Some (needsProxy_log ps proxyAddr (butlast (Name (Question m ! 0))) @
                           write_reply env (loopback_reply m), Return ())
                 | Some False \<Rightarrow>
                     Some (needsProxy_log ps proxyAddr (butlast (Name (Question m ! 0))) @
                           forward_upstream env m, Return ()))
      else Some (forward_upstream env m, Return ()))"

section \<open>Certificate mint\<close>

text \<open>
  The environment of \<open>getCertificate\<close>: the results of \<open>ecdsa.GenerateKey\<close>, of
  \<open>rand.Int\<close>, of the two calls of \<open>time.Now()\<close> and of \<open>x509.CreateCertificate\<close> (which
  signs the template for the public half of the key).
\<close>

record mint_env =
  GenerateKey :: "error + key"
  rand_Int :: "error + nat"
  mint_Now :: "nat \<Rightarrow> time"
  x509_CreateCertificate :: "x509_Certificate \<Rightarrow> key \<Rightarrow> error + 8 word list"

text \<open>The name the leaf is issued for and cached under (the variable \<open>cn\<close>).\<close>

definition cn_of :: "string \<Rightarrow> string \<Rightarrow> string" where
  "cn_of ServerName secondary =
     (if ServerName = secondary then secondary
      else slice_from ServerName (IndexByte ServerName CHR ''.'' + 1))"

definition template_of :: "mint_env \<Rightarrow> string \<Rightarrow> nat \<Rightarrow> x509_Certificate" where
  "template_of env cn serialNumber =
     \<lparr>SerialNumber = serialNumber,
      Subject = \<lparr>CommonName = cn, Country = [''CN'']\<rparr>,
      NotBefore = mint_Now env 0,
      NotAfter = mint_Now env 1 + certExpire,
      ExtKeyUsage = [ExtKeyUsageServerAuth],
      BasicConstraintsValid = True,
      DNSNames = [''*.'' @ cn, cn]\<rparr>"

definition getCertificate ::
  "(string \<Rightarrow> string) \<Rightarrow> mint_env \<Rightarrow> (string \<rightharpoonup> tls_Certificate) \<Rightarrow> string \<Rightarrow>
   (error + tls_Certificate) \<times> (string \<rightharpoonup> tls_Certificate) \<times> event list"
where
  "getCertificate ps env cacheCert ServerName =
     (if ServerName = [] then (Inl NoSNIInfo, cacheCert, [])
      else case cacheCert ServerName of
        Some cert \<Rightarrow> (Inr cert, cacheCert, [])
      | None \<Rightarrow>
          (case EffectiveTLDPlusOne ps ServerName of
             Inl err \<Rightarrow> (Inl err, cacheCert, [Log ErrorLevel ''invalid hostname: '' None])
           | Inr secondary \<Rightarrow>
               (case cacheCert (cn_of ServerName secondary) of
                  Some cert \<Rightarrow> (Inr cert, cacheCert, [])
                | None \<Rightarrow>
                    (case GenerateKey env of
                       Inl err \<Rightarrow>
                         (Inl err, cacheCert,
                          [Log ErrorLevel ''failed to generate private key: '' (Some err)])
                     | Inr priv \<Rightarrow>
                         (case rand_Int env of
                            Inl err \<Rightarrow>
                              (Inl err, cacheCert,
                               [Log ErrorLevel ''failed to generate serial number: '' (Some err)])
                          | Inr serialNumber \<Rightarrow>
                              (case x509_CreateCertificate env
                                      (template_of env (cn_of ServerName secondary) serialNumber)
                                      priv of
                                 Inl err \<Rightarrow>
                                   (Inl err, cacheCert,
                                    [CreateCertificate
                                       (template_of env (cn_of ServerName secondary) serialNumber)
                                       priv,
                                     Log ErrorLevel ''failed to create certificate: '' (Some err)])
                               | Inr derBytes \<Rightarrow>
                                   (Inr \<lparr>Certificate = [derBytes], PrivateKey = priv\<rparr>,
                                    cacheCert(cn_of ServerName secondary \<mapsto>
                                      \<lparr>Certificate = [derBytes], PrivateKey = priv\<rparr>),
                                    [CreateCertificate
                                       (template_of env (cn_of ServerName secondary) serialNumber)
                                       priv])))))))"

section \<open>TLS intercept engine\<close>


text \<open>
  The environment of \<open>forwardTls\<close>: the clock read by \<open>Expired\<close>, the outcome of the
  \<open>k\<close>-th \<open>tls.DialWithDialer\<close> of this connection (\<open>None\<close>: connected and the peer chain
  verified by the \<open>VerifyPeerCertificate\<close> callback), the resolver's environment, and
  the results of closing the two connections.
\<close>

record tls_env =
  now :: time
  Dial :: "nat \<Rightarrow> string \<Rightarrow> error option"
  resolver :: resolve_env
  conn_Close :: "error option"
  i_Close :: "error option"

definition close_conn :: "tls_env \<Rightarrow> event list" where
  "close_conn env =
     Close_conn # (case conn_Close env of None \<Rightarrow> [] | Some err \<Rightarrow> [Log ErrorLevel [] (Some err)])"

definition close_i :: "tls_env \<Rightarrow> event list" where
  "close_i env =
     Close_i # (case i_Close env of None \<Rightarrow> [] | Some err \<Rightarrow> [Log ErrorLevel [] (Some err)])"

text \<open>The relay, then the deferred closes in reverse order of their \<open>defer\<close>.\<close>

definition splice :: "tls_env \<Rightarrow> event list" where
  "splice env = Copy_both_ways # close_i env @ close_conn env"

text \<open>The dial of the cached address: the error, the events and the number of dials made.\<close>

definition dial_cached ::
  "tls_env \<Rightarrow> (string \<rightharpoonup> Resolv) \<Rightarrow> string \<Rightarrow> error option \<times> event list \<times> nat"
where
  "dial_cached env cacheResolv host =
     (case cacheResolv host of
        Some r \<Rightarrow>
          if \<not> Expired r (now env) then (Dial env 0 (addr r), [DialWithDialer (addr r)], 1)
          else (Some NoCachedAddr, [], 0)
      | None \<Rightarrow> (Some NoCachedAddr, [], 0))"

text \<open>The loop over \<open>addrs\<close>: the first address that dials, if any.\<close>

fun dial_addrs ::
  "(nat \<Rightarrow> string \<Rightarrow> error option) \<Rightarrow> nat \<Rightarrow> Resolv list \<Rightarrow> Resolv option \<times> event list"
where
  "dial_addrs dial k [] = (None, [])"
| "dial_addrs dial k (a # rest) =
     (case dial k (addr a) of
        None \<Rightarrow> (Some a, [DialWithDialer (addr a)])
      | Some err \<Rightarrow>
          (case dial_addrs dial (Suc k) rest of
             (r, ev) \<Rightarrow> (r, DialWithDialer (addr a) # ev)))"

text \<open>The part of \<open>forwardTls\<close> after the policy check.\<close>

definition resolve_and_dial ::
  "tls_env \<Rightarrow> (string \<rightharpoonup> Resolv) \<Rightarrow> string \<Rightarrow> (string \<rightharpoonup> Resolv) \<times> event list"
where
  "resolve_and_dial env cacheResolv host =
     (case dial_cached env cacheResolv host of
        (None, ev1, k) \<Rightarrow>
          (cacheResolv,
           [LoadOrStore_resolvLock host, Lock host] @ ev1 @ [Unlock host] @ splice env)
      | (Some err, ev1, k) \<Rightarrow>
          (case resolveRealIP (resolver env) host of
             (addrs, ev2) \<Rightarrow>
               if addrs = []
               then (cacheResolv,
                     [LoadOrStore_resolvLock host, Lock host] @ ev1 @ ev2 @
                     [Log WarnLevel (host @ '' resolve error'') None, Unlock host] @
                     close_conn env)
               else (case dial_addrs (Dial env) k addrs of
                       (Some a, ev3) \<Rightarrow>
                         (cacheResolv(host \<mapsto> a),
                          [LoadOrStore_resolvLock host, Lock host] @ ev1 @ ev2 @ ev3 @
                          [Unlock host] @ splice env)
                     | (None, ev3) \<Rightarrow>
                         (cacheResolv,
                          [LoadOrStore_resolvLock host, Lock host] @ ev1 @ ev2 @ ev3 @
                          [Log InfoLevel (host @ '' is IP-blocked'') None, Unlock host] @
                          close_conn env))))"

text \<open>
  \<open>forwardTls\<close> for one connection, given the result of \<open>conn.Handshake()\<close> and the server
  name of the connection state. It returns the resolve cache and the events; \<open>None\<close> is a
  call of \<open>needsProxy\<close> that does not return.
\<close>

definition forwardTls ::
  "(string \<Rightarrow> string) \<Rightarrow> tls_env \<Rightarrow> string set \<Rightarrow> (string \<rightharpoonup> Resolv) \<Rightarrow> error option \<Rightarrow> string \<Rightarrow>
   ((string \<rightharpoonup> Resolv) \<times> event list) option"
where
  "forwardTls ps env proxyAddr cacheResolv handshake host =
     (case handshake of
        Some err \<Rightarrow>
          Some (cacheResolv, Log DebugLevel ''handshake error: '' (Some err) # close_conn env)
      | None \<Rightarrow>
          (case needsProxy ps proxyAddr host of
             None \<Rightarrow> None
           | Some False \<Rightarrow>
               Some (cacheResolv,
                     needsProxy_log ps proxyAddr host @
                     [Log ErrorLevel (host @ '' needs no proxy'') None] @ close_conn env)
           | Some True \<Rightarrow>
               (case resolve_and_dial env cacheResolv host of
                  (cacheResolv', ev) \<Rightarrow>
                    Some (cacheResolv',
                          needsProxy_log ps proxyAddr host @ Log DebugLevel host None # ev))))"



section \<open>Policy store and hot reload\<close>

text \<open>
  \<open>strings.TrimSpace\<close> removes the leading and trailing white space runes of a string:
  the six ASCII ones, and the white space of Unicode in its UTF-8 encoding (U+0085,
  U+00A0, U+1680, U+2000 to U+200A, U+2028, U+2029, U+202F, U+205F, U+3000).
\<close>

definition asciiSpace :: "char \<Rightarrow> bool" where
  "asciiSpace c = (c \<in> {CHR 0x09, CHR 0x0A, CHR 0x0B, CHR 0x0C, CHR 0x0D, CHR 0x20})"

definition unicode_spaces :: "string list" where
  "unicode_spaces =
     [[CHR 0xC2, CHR 0x85], [CHR 0xC2, CHR 0xA0], [CHR 0xE1, CHR 0x9A, CHR 0x80]] @
     map (\<lambda>n. [CHR 0xE2, CHR 0x80, char_of n]) [0x80 ..< (0x8B::nat)] @
     [[CHR 0xE2, CHR 0x80, CHR 0xA8], [CHR 0xE2, CHR 0x80, CHR 0xA9],
      [CHR 0xE2, CHR 0x80, CHR 0xAF], [CHR 0xE2, CHR 0x81, CHR 0x9F],
      [CHR 0xE3, CHR 0x80, CHR 0x80]]"

text \<open>The width in bytes of the white space rune a string starts (ends) with, or 0.\<close>

definition space_width :: "string \<Rightarrow> nat" where
  "space_width s =
     (case s of
        [] \<Rightarrow> 0
      | c # cs \<Rightarrow>
          if asciiSpace c then 1
          else case find (HasPrefix s) unicode_spaces of None \<Rightarrow> 0 | Some p \<Rightarrow> length p)"

definition space_width_end :: "string \<Rightarrow> nat" where
  "space_width_end s =
     (if s = [] then 0
      else if asciiSpace (last s) then 1
      else case find (HasSuffix s) unicode_spaces of None \<Rightarrow> 0 | Some p \<Rightarrow> length p)"

text \<open>
  Trimming on the left walks the string; \<open>k\<close> is the number of bytes of the current white
  space rune still to skip. Trimming on the right does the same on the reversed string.
\<close>

fun TrimLeft_skip :: "nat \<Rightarrow> string \<Rightarrow> string" where
  "TrimLeft_skip k [] = []"
| "TrimLeft_skip k (c # cs) =
     (if 0 < k then TrimLeft_skip (k - 1) cs
      else if space_width (c # cs) = 0 then c # cs
      else TrimLeft_skip (space_width (c # cs) - 1) cs)"

fun TrimRight_skip :: "nat \<Rightarrow> string \<Rightarrow> string" where
  "TrimRight_skip k [] = []"
| "TrimRight_skip k (c # cs) =
     (if 0 < k then TrimRight_skip (k - 1) cs
      else if space_width_end (rev (c # cs)) = 0 then c # cs
      else TrimRight_skip (space_width_end (rev (c # cs)) - 1) cs)"

definition TrimSpace :: "string \<Rightarrow> string" where
  "TrimSpace s = rev (TrimRight_skip 0 (rev (TrimLeft_skip 0 s)))"

text \<open>
  \<open>bufio.Scanner\<close> with its default split function \<open>ScanLines\<close>: the lines of the input
  without their end-of-line marker (\<open>\n\<close> or \<open>\r\n\<close>), a last line without marker
  included if it is not empty. \<open>Scan\<close> returns false, and the loop of \<open>updateConfig\<close> ends,
  at a line that does not fit the buffer of \<open>MaxScanTokenSize\<close> bytes. \<open>cur\<close> is the part
  of the current line read so far.
\<close>

definition MaxScanTokenSize :: nat where
  "MaxScanTokenSize = 64 * 1024"

definition dropCR :: "string \<Rightarrow> string" where
  "dropCR data = (if data \<noteq> [] \<and> last data = CHR 0x0D then butlast data else data)"

fun Scan :: "string \<Rightarrow> string \<Rightarrow> string list" where
  "Scan cur [] = (if cur = [] \<or> MaxScanTokenSize \<le> length cur then [] else [dropCR cur])"
| "Scan cur (c # cs) =
     (if MaxScanTokenSize \<le> length cur then []
      else if c = CHR 0x0A then dropCR cur # Scan [] cs
      else Scan (cur @ [c]) cs)"

text \<open>
  What \<open>os.Open(configFile)\<close> gives: an error, or a file with its content and the result of
  closing it.
\<close>

datatype open_result = OpenError error | Opened string "error option"

definition updateConfig :: "open_result \<Rightarrow> string set outcome" where
  "updateConfig fil =
     (case fil of
        OpenError err \<Rightarrow> Exit err
      | Opened content close_err \<Rightarrow>
          (case close_err of
             Some err \<Rightarrow> Exit err
           | None \<Rightarrow> Return (set (filter (\<lambda>text. text \<noteq> []) (map TrimSpace (Scan [] content))))))"

text \<open>
  The file system as the watcher sees it at one moment: the result of \<open>os.Stat\<close> and of
  \<open>os.Open\<close>. The state of the watcher is the active policy set and \<open>initStat\<close>.
\<close>

record FileInfo =
  Size :: int
  ModTime :: time


record watcher =
  proxyAddr :: "string set"
  initStat :: FileInfo




section \<open>The specification's notions\<close>

text \<open>
  The label-prefix strippings of a hostname \<open>h\<close>: \<open>h\<close> itself and what is left after
  removing one, two, ... leading labels, longest first.
\<close>

fun after_dots :: "string \<Rightarrow> string list" where
  "after_dots [] = []"
| "after_dots (c # cs) = (if c = CHR ''.'' then cs # after_dots cs else after_dots cs)"

definition label_strippings :: "string \<Rightarrow> string list" where
  "label_strippings h = h # after_dots h"

text \<open>The strippings of \<open>h\<close> from \<open>h\<close> down to \<open>base\<close>, both included.\<close>

definition strippings_upto :: "string \<Rightarrow> string \<Rightarrow> string list" where
  "strippings_upto h base =
     takeWhile (\<lambda>d. d \<noteq> base) (label_strippings h) @
     (if base \<in> set (label_strippings h) then [base] else [])"

text \<open>
  The matcher of the specification, section 4.B: "if \<open>h\<close> is present, match. Otherwise
  compute \<open>base = eTLD+1(h)\<close>. Strip leading labels from \<open>h\<close> one at a time until
  \<open>h == base\<close>; match if any intermediate form (including \<open>base\<close>) is in the set."
\<close>

definition Matcher :: "(string \<Rightarrow> string) \<Rightarrow> string set \<Rightarrow> string \<Rightarrow> bool" where
  "Matcher ps policy h =
     (h \<in> policy \<or>
      (case EffectiveTLDPlusOne ps h of
         Inl err \<Rightarrow> False
       | Inr base \<Rightarrow> \<exists>d \<in> set (strippings_upto h base). d \<in> policy))"

text \<open>Removing the leading label of a name (nothing, if it has a single label).\<close>

definition strip_label :: "string \<Rightarrow> string" where
  "strip_label d = slice_from d (IndexByte d CHR ''.'' + 1)"

text \<open>The number of labels of a name with no empty label.\<close>

definition labels :: "string \<Rightarrow> nat" where
  "labels d = Suc (length (filter (\<lambda>c. c = CHR ''.'') d))"

text \<open>Lowercasing of the ASCII letters, as host names compare.\<close>

definition lower :: "char \<Rightarrow> char" where
  "lower c =
     (if of_char c \<ge> (0x41::nat) \<and> of_char c \<le> (0x5A::nat) then char_of (of_char c + (32::nat))
      else c)"

definition ToLower :: "string \<Rightarrow> string" where
  "ToLower s = map lower s"


text \<open>
  The dial targets of the specification, section 4.C: the records of one type of an answer
  section as \<open>[ip]:443\<close>, in the order returned.
\<close>

definition targets_AAAA :: "resolve_env \<Rightarrow> RR list \<Rightarrow> string list" where
  "targets_AAAA env answers =
     concat (map (\<lambda>ans. case ans of RR_AAAA hdr ip \<Rightarrow> [JoinHostPort (IP_String env ip) ''443'']
                               | _ \<Rightarrow> []) answers)"

definition targets_A :: "resolve_env \<Rightarrow> RR list \<Rightarrow> string list" where
  "targets_A env answers =
     concat (map (\<lambda>ans. case ans of RR_A hdr ip \<Rightarrow> [JoinHostPort (IP_String env ip) ''443'']
                               | _ \<Rightarrow> []) answers)"


text \<open>
  The white space runes that \<open>strings.TrimSpace\<close> removes, as byte strings, and a run of
  white space: a concatenation of such runes.
\<close>

definition space_runes :: "string list" where
  "space_runes =
     map (\<lambda>c. [c]) [CHR 0x09, CHR 0x0A, CHR 0x0B, CHR 0x0C, CHR 0x0D, CHR 0x20] @ unicode_spaces"

inductive white_space :: "string \<Rightarrow> bool" where
  white_space_Nil: "white_space []"
| white_space_rune: "r \<in> set space_runes \<Longrightarrow> white_space s \<Longrightarrow> white_space (r @ s)"

text \<open>
  A string is trimmed when it neither begins nor ends with a white space rune. It is a
  trimmed line of a file content when the content holds it on one line, between the start
  of the content or a line feed and the end of the content or a line feed, with nothing
  but white space around it on that line.
\<close>

definition trimmed :: "string \<Rightarrow> bool" where
  "trimmed d =
     (\<not> (\<exists>r \<in> set space_runes. HasPrefix d r) \<and> \<not> (\<exists>r \<in> set space_runes. HasSuffix d r))"

definition trimmed_line_of :: "string \<Rightarrow> string \<Rightarrow> bool" where
  "trimmed_line_of content d =
     (\<exists>pre ws1 ws2 post.
        content = pre @ ws1 @ d @ ws2 @ post \<and>
        (pre = [] \<or> last pre = CHR 0x0A) \<and> (post = [] \<or> hd post = CHR 0x0A) \<and>
        white_space ws1 \<and> white_space ws2 \<and> CHR 0x0A \<notin> set (ws1 @ d @ ws2) \<and> trimmed d)"

section \<open>Example inputs\<close>

text \<open>
  A query for \<open>www.example.com\<close>, and an environment of the DNS handler in which the
  cleartext upstream times out and writing to the client succeeds.
\<close>

definition example_query :: "16 word \<Rightarrow> dns_Msg" where
  "example_query qtype =
     new_Msg\<lparr>Msg_Id := 7, RecursionDesired := True,
             Question := [\<lparr>Name = ''www.example.com.'', Qtype = qtype, Qclass = ClassINET\<rparr>]\<rparr>"

definition example_dns_env :: dns_env where
  "example_dns_env =
     \<lparr>Exchange_def = (\<lambda>m. Inl (Failure ''i/o timeout'')), WriteMsg_err = (\<lambda>m. None)\<rparr>"

text \<open>
  A secure upstream that answers the AAAA query with \<open>::1\<close> and fails on the A query.
\<close>

definition example_resolver :: resolve_env where
  "example_resolver =
     \<lparr>Exchange_gfw = (\<lambda>q. if Qtype (hd (Question q)) = TypeAAAA
                           then Inr (new_Msg\<lparr>Response := True,
                                  Answer := [RR_AAAA \<lparr>Hdr_Name = Name (hd (Question q)),
                                     Rrtype = TypeAAAA, Class = ClassINET, Ttl = 300,
                                     Rdlength = 16\<rparr> IPv6loopback]\<rparr>)
                           else Inl (Failure ''i/o timeout'')),
      IP_String = (\<lambda>ip. if ip = IPv6loopback then ''::1'' else ''1.2.3.4''),
      Now = (\<lambda>k. 1000)\<rparr>"

text \<open>
  A secure upstream that is down, and one that answers the AAAA query with \<open>::1\<close> and the
  A query with a CNAME record and \<open>1.2.3.4\<close>.
\<close>

definition example_resolver_down :: resolve_env where
  "example_resolver_down =
     \<lparr>Exchange_gfw = (\<lambda>q. Inl (Failure ''i/o timeout'')),
      IP_String = (\<lambda>ip. ''1.2.3.4''), Now = (\<lambda>k. 1000)\<rparr>"

definition example_resolver_dual :: resolve_env where
  "example_resolver_dual =
     \<lparr>Exchange_gfw = (\<lambda>q. if Qtype (hd (Question q)) = TypeAAAA
                           then Inr (new_Msg\<lparr>Response := True,
                                  Answer := [RR_AAAA \<lparr>Hdr_Name = Name (hd (Question q)),
                                     Rrtype = TypeAAAA, Class = ClassINET, Ttl = 300,
                                     Rdlength = 16\<rparr> IPv6loopback]\<rparr>)
                           else Inr (new_Msg\<lparr>Response := True,
                                  Answer := [RR_Other \<lparr>Hdr_Name = Name (hd (Question q)),
                                     Rrtype = 5, Class = ClassINET, Ttl = 300,
                                     Rdlength = 9\<rparr>,
                                   RR_A \<lparr>Hdr_Name = ''edge.example.net.'',
                                     Rrtype = TypeA, Class = ClassINET, Ttl = 300,
                                     Rdlength = 4\<rparr> (IPv4 1 2 3 4)]\<rparr>)),
      IP_String = (\<lambda>ip. if ip = IPv6loopback then ''::1'' else ''1.2.3.4''),
      Now = (\<lambda>k. 1000 + int k)\<rparr>"





text \<open>
  An environment of \<open>forwardTls\<close> in which every dial succeeds, and two contents of the
  configuration file.
\<close>

definition example_tls_env :: tls_env where
  "example_tls_env =
     \<lparr>now = 0, Dial = (\<lambda>k a. None), resolver = example_resolver_dual,
      conn_Close = None, i_Close = None\<rparr>"

definition example_config :: string where
  "example_config = ''Example.COM'' @ [CHR 0x0A]"

definition example_config_lower :: string where
  "example_config_lower = ''example.com'' @ [CHR 0x0D, CHR 0x0A, CHR 0x0A] @ '' b.example.org ''"

text \<open>
  Two environments of the mint that differ in the key and serial number generated. The
  signer stands in for \<open>x509.CreateCertificate\<close>: its DER bytes are the bytes of the
  subject's common name. \<open>cert_for cn priv\<close> is the leaf it yields.
\<close>

definition der_of_name :: "string \<Rightarrow> 8 word list" where
  "der_of_name cn = map (\<lambda>c. of_nat (of_char c)) cn"

definition example_mint_env :: mint_env where
  "example_mint_env =
     \<lparr>GenerateKey = Inr 11, rand_Int = Inr 2024, mint_Now = (\<lambda>k. 1000 + int k),
      x509_CreateCertificate = (\<lambda>template pub. Inr (der_of_name (CommonName (Subject template))))\<rparr>"

definition example_mint_env' :: mint_env where
  "example_mint_env' =
     \<lparr>GenerateKey = Inr 12, rand_Int = Inr 2025, mint_Now = (\<lambda>k. 2000 + int k),
      x509_CreateCertificate = (\<lambda>template pub. Inr (der_of_name (CommonName (Subject template))))\<rparr>"

definition cert_for :: "string \<Rightarrow> key \<Rightarrow> tls_Certificate" where
  "cert_for cn priv = \<lparr>Certificate = [der_of_name cn], PrivateKey = priv\<rparr>"

section \<open>Facts about the string functions\<close>

lemma IndexByte_ge: "- 1 \<le> IndexByte s c"
  by (induction s) auto

lemma IndexByte_neg_iff: "IndexByte s c < 0 \<longleftrightarrow> c \<notin> set s"
  by (induction s) auto

lemma IndexByte_less: "c \<in> set s \<Longrightarrow> IndexByte s c < int (length s)"
  by (induction s) (auto simp: IndexByte_neg_iff)

lemma IndexByte_nth: "c \<in> set s \<Longrightarrow> s ! nat (IndexByte s c) = c"
proof (induction s)
  case Nil
  then show ?case by simp
next
  case (Cons x xs)
  show ?case
  proof (cases "x = c")
    case True
    then show ?thesis by simp
  next
    case False
    with Cons.prems have in_xs: "c \<in> set xs" by simp
    then have nn: "\<not> IndexByte xs c < 0" by (simp add: IndexByte_neg_iff)
    then have "nat (IndexByte xs c + 1) = Suc (nat (IndexByte xs c))" by simp
    with False nn Cons.IH [OF in_xs] show ?thesis by simp
  qed
qed

lemma after_dots_no_dot: "CHR ''.'' \<notin> set s \<Longrightarrow> after_dots s = []"
  by (induction s) auto

lemma after_dots_first_dot:
  "CHR ''.'' \<in> set s \<Longrightarrow>
   after_dots s = label_strippings (slice_from s (IndexByte s CHR ''.'' + 1))"
proof (induction s)
  case Nil
  then show ?case by simp
next
  case (Cons x xs)
  show ?case
  proof (cases "x = CHR ''.''")
    case True
    then show ?thesis by (simp add: label_strippings_def slice_from_def)
  next
    case False
    with Cons.prems have in_xs: "CHR ''.'' \<in> set xs" by simp
    then have nn: "\<not> IndexByte xs CHR ''.'' < 0" by (simp add: IndexByte_neg_iff)
    then have "nat (IndexByte xs CHR ''.'' + 1 + 1) = Suc (nat (IndexByte xs CHR ''.'' + 1))"
      by simp
    with False nn Cons.IH [OF in_xs] show ?thesis by (simp add: slice_from_def)
  qed
qed

lemma length_after_dots: "d \<in> set (after_dots s) \<Longrightarrow> length d < length s"
  by (induction s) (auto split: if_splits)

lemma drop_Suc_in_after_dots:
  "j < length s \<Longrightarrow> s ! j = CHR ''.'' \<Longrightarrow> drop (Suc j) s \<in> set (after_dots s)"
proof (induction s arbitrary: j)
  case Nil
  then show ?case by simp
next
  case (Cons x xs)
  show ?case
  proof (cases j)
    case 0
    with Cons.prems show ?thesis by simp
  next
    case (Suc k)
    with Cons.prems have "drop (Suc k) xs \<in> set (after_dots xs)"
      by (intro Cons.IH) simp_all
    with Suc show ?thesis by simp
  qed
qed

lemma LastIndexByte_ge: "- 1 \<le> LastIndexByte s c"
  using IndexByte_less [of c "rev s"] IndexByte_neg_iff [of "rev s" c]
  by (auto simp: LastIndexByte_def)

lemma LastIndexByte_neg_iff: "LastIndexByte s c < 0 \<longleftrightarrow> c \<notin> set s"
  using IndexByte_less [of c "rev s"] IndexByte_neg_iff [of "rev s" c]
  by (auto simp: LastIndexByte_def)

lemma LastIndexByte_less: "LastIndexByte s c < int (length s)"
  using IndexByte_ge [of "rev s" c] by (auto simp: LastIndexByte_def)

lemma LastIndexByte_nth:
  assumes "c \<in> set s"
  shows "s ! nat (LastIndexByte s c) = c"
proof -
  let ?r = "IndexByte (rev s) c"
  from assms have in_rev: "c \<in> set (rev s)" by simp
  then have nn: "0 \<le> ?r" and lt: "?r < int (length s)"
    using IndexByte_neg_iff [of "rev s" c] IndexByte_less [of c "rev s"] by auto
  have "rev s ! nat ?r = c" using in_rev by (rule IndexByte_nth)
  moreover have "rev s ! nat ?r = s ! (length s - Suc (nat ?r))"
    using lt nn by (intro rev_nth) simp
  moreover have "nat (LastIndexByte s c) = length s - Suc (nat ?r)"
    using nn lt by (simp add: LastIndexByte_def nat_diff_distrib')
  ultimately show ?thesis by simp
qed

lemma slice_LastIndexByte_in_strippings:
  "i < length s \<Longrightarrow>
   slice_from s (1 + LastIndexByte (take i s) CHR ''.'') \<in> set (label_strippings s)"
proof (cases "CHR ''.'' \<in> set (take i s)")
  case False
  then have "LastIndexByte (take i s) CHR ''.'' = - 1"
    using LastIndexByte_neg_iff [of "take i s" "CHR ''.''"] LastIndexByte_ge [of "take i s" "CHR ''.''"]
    by simp
  then show ?thesis by (simp add: slice_from_def label_strippings_def)
next
  case True
  assume i: "i < length s"
  let ?j = "LastIndexByte (take i s) CHR ''.''"
  from True have nn: "0 \<le> ?j" using LastIndexByte_neg_iff [of "take i s" "CHR ''.''"] by simp
  have lt: "nat ?j < i" using LastIndexByte_less [of "take i s" "CHR ''.''"] nn i by simp
  have "take i s ! nat ?j = CHR ''.''" using True by (rule LastIndexByte_nth)
  with lt have dot: "s ! nat ?j = CHR ''.''" by simp
  have "drop (Suc (nat ?j)) s \<in> set (after_dots s)"
    using lt i dot by (intro drop_Suc_in_after_dots) simp_all
  moreover have "nat (1 + ?j) = Suc (nat ?j)" using nn by simp
  ultimately show ?thesis by (simp add: slice_from_def label_strippings_def)
qed

lemma EffectiveTLDPlusOne_in_strippings:
  "EffectiveTLDPlusOne ps domain = Inr base \<Longrightarrow> base \<in> set (label_strippings domain)"
  by (auto simp: EffectiveTLDPlusOne_def slice_LastIndexByte_in_strippings split: if_splits)

lemma strippings_upto_self: "strippings_upto d d = [d]"
  by (simp add: strippings_upto_def label_strippings_def)

lemma needsProxy_loop_strippings:
  "base \<in> set (label_strippings d) \<Longrightarrow>
   needsProxy_loop P d base = Some (\<exists>x \<in> set (tl (strippings_upto d base)). x \<in> P)"
proof (induction d rule: length_induct)
  case (1 d)
  show ?case
  proof (cases "d = base")
    case True
    then show ?thesis by (simp add: needsProxy_loop.simps strippings_upto_self)
  next
    case False
    let ?d' = "slice_from d (IndexByte d CHR ''.'' + 1)"
    from False "1.prems" have in_after: "base \<in> set (after_dots d)"
      by (simp add: label_strippings_def)
    have dot: "CHR ''.'' \<in> set d"
    proof (rule ccontr)
      assume "CHR ''.'' \<notin> set d"
      then have "after_dots d = []" by (rule after_dots_no_dot)
      with in_after show False by simp
    qed
    then have after: "after_dots d = label_strippings ?d'" by (rule after_dots_first_dot)
    have "?d' \<in> set (after_dots d)" by (simp add: after label_strippings_def)
    then have shorter: "length ?d' < length d" by (rule length_after_dots)
    from in_after after have in': "base \<in> set (label_strippings ?d')" by simp
    from "1.IH" shorter in' have IH:
      "needsProxy_loop P ?d' base = Some (\<exists>x \<in> set (tl (strippings_upto ?d' base)). x \<in> P)"
      by blast
    have upto: "strippings_upto d base = d # strippings_upto ?d' base"
      using False in' by (simp add: strippings_upto_def label_strippings_def [of d] after)
    have hd': "strippings_upto ?d' base = ?d' # tl (strippings_upto ?d' base)"
      using in' by (simp add: strippings_upto_def label_strippings_def)
    have "(\<exists>x \<in> set (strippings_upto ?d' base). x \<in> P) \<longleftrightarrow>
          (?d' \<in> P \<or> (\<exists>x \<in> set (tl (strippings_upto ?d' base)). x \<in> P))"
      by (subst hd') simp
    with False IH upto show ?thesis
      by (subst needsProxy_loop.simps) simp
  qed
qed

lemma needsProxy_Matcher: "needsProxy ps P h = Some (Matcher ps P h)"
proof (cases "h \<in> P")
  case True
  then show ?thesis by (simp add: needsProxy_def Matcher_def)
next
  case False
  show ?thesis
  proof (cases "EffectiveTLDPlusOne ps h")
    case (Inl e)
    with False show ?thesis by (simp add: needsProxy_def Matcher_def)
  next
    case (Inr base)
    then have in_s: "base \<in> set (label_strippings h)" by (rule EffectiveTLDPlusOne_in_strippings)
    have hd: "strippings_upto h base = h # tl (strippings_upto h base)"
      using in_s by (simp add: strippings_upto_def label_strippings_def)
    have "(\<exists>x \<in> set (strippings_upto h base). x \<in> P) \<longleftrightarrow>
          (\<exists>x \<in> set (tl (strippings_upto h base)). x \<in> P)"
      using False by (subst hd) simp
    with False Inr in_s show ?thesis
      by (simp add: needsProxy_def Matcher_def needsProxy_loop_strippings)
  qed
qed

lemma needsProxy_loop_reaches:
  "base \<in> set (label_strippings d) \<Longrightarrow> \<exists>n \<le> length d. (strip_label ^^ n) d = base"
proof (induction d rule: length_induct)
  case (1 d)
  show ?case
  proof (cases "d = base")
    case True
    then have "(strip_label ^^ 0) d = base" by simp
    then show ?thesis by blast
  next
    case False
    from False "1.prems" have in_after: "base \<in> set (after_dots d)"
      by (simp add: label_strippings_def)
    have dot: "CHR ''.'' \<in> set d"
    proof (rule ccontr)
      assume "CHR ''.'' \<notin> set d"
      then have "after_dots d = []" by (rule after_dots_no_dot)
      with in_after show False by simp
    qed
    then have after: "after_dots d = label_strippings (strip_label d)"
      unfolding strip_label_def by (rule after_dots_first_dot)
    have "strip_label d \<in> set (after_dots d)" by (simp add: after label_strippings_def)
    then have shorter: "length (strip_label d) < length d" by (rule length_after_dots)
    from in_after after have "base \<in> set (label_strippings (strip_label d))" by simp
    with "1.IH" shorter obtain n where
      n: "n \<le> length (strip_label d)" "(strip_label ^^ n) (strip_label d) = base"
      by blast
    have "(strip_label ^^ Suc n) d = base" using n(2) by (simp add: funpow_swap1)
    moreover have "Suc n \<le> length d" using n(1) shorter by simp
    ultimately show ?thesis by blast
  qed
qed

section \<open>The domain matcher\<close>

text \<open>
  C6, as amended. For every public suffix list, policy set and hostname \<open>h\<close>, \<open>needsProxy\<close>
  returns, and it returns true if and only if \<open>h\<close> itself is in the policy set, or
  eTLD+1 of \<open>h\<close> exists and one of the label-prefix strippings of \<open>h\<close>, from \<open>h\<close> down to
  eTLD+1 of \<open>h\<close> with both included, is in the policy set. If public-suffix parsing of \<open>h\<close>
  fails, it returns false unless \<open>h\<close> itself is in the policy set.
\<close>

theorem needsProxy_refines_Matcher:
  "needsProxy ps policy h = Some (Matcher ps policy h) \<and>
   (h \<notin> policy \<and> isl (EffectiveTLDPlusOne ps h) \<longrightarrow> needsProxy ps policy h = Some False) \<and>
   (h \<in> policy \<longrightarrow> needsProxy ps policy h = Some True)"
  by (auto simp: needsProxy_Matcher Matcher_def split: sum.splits)

text \<open>Values of eTLD+1 under the prevailing rule, for the examples.\<close>

lemma eTLD_com: "EffectiveTLDPlusOne lastLabel ''com'' = Inl (CannotDerive ''com'')"
  by code_simp

lemma eTLD_a_b_example_com:
  "EffectiveTLDPlusOne lastLabel ''a.b.example.com'' = Inr ''example.com''"
  by code_simp

lemma eTLD_bar_example_com:
  "EffectiveTLDPlusOne lastLabel ''bar.example.com'' = Inr ''example.com''"
  by code_simp

text \<open>
  The theorem at \<open>com\<close> (no eTLD+1, not in the policy set: no match), at
  \<open>a.b.example.com\<close> (matched through the stripping \<open>example.com\<close>) and at a name that is
  itself in the policy set.
\<close>

theorem needsProxy_refines_Matcher_witness:
  "(''com'' \<notin> {''example.com''} \<and> isl (EffectiveTLDPlusOne lastLabel ''com'') \<and>
    needsProxy lastLabel {''example.com''} ''com'' = Some False) \<and>
   (''example.com'' \<in> set (strippings_upto ''a.b.example.com'' ''example.com'') \<and>
    needsProxy lastLabel {''example.com''} ''a.b.example.com'' = Some True) \<and>
   (''example.com'' \<in> {''example.com''} \<and>
    needsProxy lastLabel {''example.com''} ''example.com'' = Some True)"
proof -
  have s: "strippings_upto ''a.b.example.com'' ''example.com'' =
           [''a.b.example.com'', ''b.example.com'', ''example.com'']"
    by (simp add: strippings_upto_def label_strippings_def)
  show ?thesis
    using needsProxy_refines_Matcher [of lastLabel "{''example.com''}" "''com''"]
      needsProxy_refines_Matcher [of lastLabel "{''example.com''}" "''a.b.example.com''"]
      needsProxy_refines_Matcher [of lastLabel "{''example.com''}" "''example.com''"]
    by (simp add: eTLD_com eTLD_a_b_example_com Matcher_def s)
qed

text \<open>
  C6 as stated fails: \<open>com\<close> has no eTLD+1, so public-suffix parsing of it fails, yet with
  \<open>com\<close> in the policy set the matcher returns true, since membership of the name itself
  is tested before the parsing.
\<close>

theorem needsProxy_parse_failure_counterexample:
  "isl (EffectiveTLDPlusOne lastLabel ''com'') \<and>
   needsProxy lastLabel {''com''} ''com'' = Some True"
  by (simp add: eTLD_com needsProxy_def)

text \<open>
  C7. For every public suffix list, policy set and hostname, \<open>needsProxy\<close> returns. When
  eTLD+1 of the hostname exists, the label-stripping walk reaches it after finitely many
  strips (at most the length of the name), so the loop returns for every policy set,
  and it returns false when no form matches (the empty policy set).
\<close>

theorem needsProxy_terminates:
  "(\<exists>b. needsProxy ps policy domain = Some b) \<and>
   (\<forall>secondary. EffectiveTLDPlusOne ps domain = Inr secondary \<longrightarrow>
      (\<exists>n \<le> length domain. (strip_label ^^ n) domain = secondary) \<and>
      (\<exists>b. needsProxy_loop policy domain secondary = Some b) \<and>
      needsProxy_loop {} domain secondary = Some False)"
proof (intro conjI allI impI)
  show "\<exists>b. needsProxy ps policy domain = Some b"
    by (simp add: needsProxy_Matcher)
next
  fix secondary
  assume "EffectiveTLDPlusOne ps domain = Inr secondary"
  then have in_s: "secondary \<in> set (label_strippings domain)"
    by (rule EffectiveTLDPlusOne_in_strippings)
  then show "\<exists>n \<le> length domain. (strip_label ^^ n) domain = secondary"
    by (rule needsProxy_loop_reaches)
  show "\<exists>b. needsProxy_loop policy domain secondary = Some b"
    using in_s by (simp add: needsProxy_loop_strippings)
  show "needsProxy_loop {} domain secondary = Some False"
    using in_s by (simp add: needsProxy_loop_strippings)
qed

theorem needsProxy_terminates_witness:
  "EffectiveTLDPlusOne lastLabel ''a.b.example.com'' = Inr ''example.com'' \<and>
   needsProxy lastLabel {''example.org''} ''a.b.example.com'' = Some False \<and>
   (strip_label ^^ 2) ''a.b.example.com'' = ''example.com'' \<and>
   needsProxy_loop {} ''a.b.example.com'' ''example.com'' = Some False"
proof -
  from needsProxy_terminates [of lastLabel "{''example.org''}" "''a.b.example.com''"]
  have l: "needsProxy_loop {} ''a.b.example.com'' ''example.com'' = Some False"
    using eTLD_a_b_example_com by blast
  have s: "(strip_label ^^ 2) ''a.b.example.com'' = ''example.com''"
    by (simp add: numeral_2_eq_2 strip_label_def slice_from_def)
  have n: "needsProxy lastLabel {''example.org''} ''a.b.example.com'' = Some False"
    by (simp add: needsProxy_def eTLD_a_b_example_com needsProxy_loop.simps slice_from_def)
  show ?thesis using l s n eTLD_a_b_example_com by simp
qed

section \<open>The DNS responder\<close>

lemma needsProxy_log_True:
  "needsProxy ps policy h = Some True \<Longrightarrow> needsProxy_log ps policy h = []"
  by (auto simp: needsProxy_def needsProxy_log_def split: if_splits sum.splits)

lemma TypeA_neq_TypeAAAA: "TypeA \<noteq> TypeAAAA"
  by (simp add: TypeA_def TypeAAAA_def)

lemma eTLD_www_example_com:
  "EffectiveTLDPlusOne lastLabel ''www.example.com'' = Inr ''example.com''"
  by code_simp

lemma needsProxy_www_example_com:
  "needsProxy lastLabel {''example.com''} ''www.example.com'' = Some True"
  by (simp add: needsProxy_def eTLD_www_example_com needsProxy_loop.simps slice_from_def)

text \<open>
  C8. For every message with a single question of type A or AAAA whose name, with the
  trailing dot stripped, is matched by the policy set, \<open>forwardDns\<close> returns after writing
  one message to the client and nothing else; that reply has exactly one answer, an A
  record with \<open>127.0.0.1\<close> for an A question and an AAAA record with \<open>::1\<close> for an AAAA
  question, under the queried name with class INET and TTL 60; its Authoritative bit is
  set and its question section is that of the query.
\<close>

theorem forwardDns_in_policy:
  assumes "Question m = [q]"
    and "Qtype q = TypeA \<or> Qtype q = TypeAAAA"
    and "Name q = h @ ''.''"
    and "needsProxy ps policy h = Some True"
  shows "\<exists>msg. forwardDns ps env policy m = Some (write_reply env msg, Return ()) \<and>
           write_reply env msg =
             WriteMsg msg #
             (case WriteMsg_err env msg of None \<Rightarrow> [] | Some err \<Rightarrow> [Log ErrorLevel [] (Some err)]) \<and>
           Answer msg =
             [if Qtype q = TypeA
              then RR_A \<lparr>Hdr_Name = Name q, Rrtype = TypeA, Class = ClassINET, Ttl = 60,
                         Rdlength = 0\<rparr> [0, 0, 0, 0, 0, 0, 0, 0, 0, 0, 0xff, 0xff, 127, 0, 0, 1]
              else RR_AAAA \<lparr>Hdr_Name = Name q, Rrtype = TypeAAAA, Class = ClassINET, Ttl = 60,
                            Rdlength = 0\<rparr> [0, 0, 0, 0, 0, 0, 0, 0, 0, 0, 0, 0, 0, 0, 0, 1]] \<and>
           Authoritative msg \<and> Response msg \<and> Msg_Id msg = Msg_Id m \<and>
           Question msg = Question m"
proof -
  have q0: "Question m ! 0 = q" using assms(1) by simp
  have bl: "butlast (Name q) = h" using assms(3) by simp
  have ne: "Name q \<noteq> []" using assms(3) by simp
  have run: "forwardDns ps env policy m = Some (write_reply env (loopback_reply m), Return ())"
    using assms(1,2,4) ne
    by (simp add: forwardDns_def q0 bl needsProxy_log_True)
  have ans: "Answer (loopback_reply m) =
             [if Qtype q = TypeA
              then RR_A \<lparr>Hdr_Name = Name q, Rrtype = TypeA, Class = ClassINET, Ttl = 60,
                         Rdlength = 0\<rparr> [0, 0, 0, 0, 0, 0, 0, 0, 0, 0, 0xff, 0xff, 127, 0, 0, 1]
              else RR_AAAA \<lparr>Hdr_Name = Name q, Rrtype = TypeAAAA, Class = ClassINET, Ttl = 60,
                            Rdlength = 0\<rparr> [0, 0, 0, 0, 0, 0, 0, 0, 0, 0, 0, 0, 0, 0, 0, 1]]"
    using assms(2) TypeA_neq_TypeAAAA
    by (auto simp: loopback_reply_def q0 Let_def IPv4_def IPv6loopback_def)
  have hdr: "Authoritative (loopback_reply m) \<and> Response (loopback_reply m) \<and>
             Msg_Id (loopback_reply m) = Msg_Id m \<and> Question (loopback_reply m) = Question m"
    using assms(1,2) TypeA_neq_TypeAAAA
    by (auto simp: loopback_reply_def q0 Let_def SetReply_def)
  show ?thesis
    using run ans hdr by (intro exI [of _ "loopback_reply m"]) (simp add: write_reply_def)
qed

theorem forwardDns_in_policy_witness:
  "\<exists>msg. forwardDns lastLabel example_dns_env {''example.com''} (example_query TypeA) =
            Some ([WriteMsg msg], Return ()) \<and>
         Answer msg =
           [RR_A \<lparr>Hdr_Name = ''www.example.com.'', Rrtype = TypeA, Class = ClassINET, Ttl = 60,
                   Rdlength = 0\<rparr> [0, 0, 0, 0, 0, 0, 0, 0, 0, 0, 0xff, 0xff, 127, 0, 0, 1]] \<and>
         Authoritative msg \<and> Question msg = Question (example_query TypeA)"
proof -
  let ?q = "\<lparr>Name = ''www.example.com.'', Qtype = TypeA, Qclass = ClassINET\<rparr>"
  have 1: "Question (example_query TypeA) = [?q]" by (simp add: example_query_def)
  have 2: "Qtype ?q = TypeA \<or> Qtype ?q = TypeAAAA" by simp
  have 3: "Name ?q = ''www.example.com'' @ ''.''" by simp
  from forwardDns_in_policy [OF 1 2 3 needsProxy_www_example_com, of example_dns_env]
  show ?thesis by (auto simp: example_dns_env_def)
qed

text \<open>
  C10. For every message with an empty question section, \<open>forwardDns\<close> reads
  \<open>m.Question[0]\<close> after testing only for more than one question: it panics with an index
  out of range, and has neither written a reply nor logged an error.
\<close>

theorem forwardDns_no_question:
  "Question m = [] \<Longrightarrow> forwardDns ps env policy m = Some ([], Panic IndexOutOfRange)"
  by (simp add: forwardDns_def)

theorem forwardDns_no_question_witness:
  "Question new_Msg = [] \<and>
   forwardDns lastLabel example_dns_env {''example.com''} new_Msg =
     Some ([], Panic IndexOutOfRange)"
  using forwardDns_no_question [of new_Msg lastLabel example_dns_env "{''example.com''}"]
  by (simp add: new_Msg_def)

section \<open>The secure resolver\<close>

lemma addr_append_AAAA:
  "map addr (append_AAAA env ret answers) = map addr ret @ targets_AAAA env answers"
  by (induction answers arbitrary: ret) (auto simp: targets_AAAA_def split: RR.splits)

lemma addr_append_A:
  "map addr (append_A env ret answers) = map addr ret @ targets_A env answers"
  by (induction answers arbitrary: ret) (auto simp: targets_A_def split: RR.splits)

lemma expire_append_AAAA:
  "\<forall>k < length ret. expire (ret ! k) = Now env k + cacheAddrTtl \<Longrightarrow>
   k < length (append_AAAA env ret answers) \<Longrightarrow>
   expire (append_AAAA env ret answers ! k) = Now env k + cacheAddrTtl"
proof (induction answers arbitrary: ret)
  case Nil
  then show ?case by simp
next
  case (Cons ans rest)
  show ?case
  proof (cases ans)
    case (RR_AAAA hdr ip)
    let ?ret = "ret @ [\<lparr>addr = JoinHostPort (IP_String env ip) ''443'',
                        expire = Now env (length ret) + cacheAddrTtl\<rparr>]"
    have "\<forall>k < length ?ret. expire (?ret ! k) = Now env k + cacheAddrTtl"
      using Cons.prems(1) by (auto simp: nth_append less_Suc_eq)
    from Cons.IH [OF this] Cons.prems(2) RR_AAAA show ?thesis by simp
  next
    case (RR_A hdr ip)
    with Cons show ?thesis by simp
  next
    case (RR_Other hdr)
    with Cons show ?thesis by simp
  qed
qed

lemma expire_append_A:
  "\<forall>k < length ret. expire (ret ! k) = Now env k + cacheAddrTtl \<Longrightarrow>
   k < length (append_A env ret answers) \<Longrightarrow>
   expire (append_A env ret answers ! k) = Now env k + cacheAddrTtl"
proof (induction answers arbitrary: ret)
  case Nil
  then show ?case by simp
next
  case (Cons ans rest)
  show ?case
  proof (cases ans)
    case (RR_A hdr ip)
    let ?ret = "ret @ [\<lparr>addr = JoinHostPort (IP_String env ip) ''443'',
                        expire = Now env (length ret) + cacheAddrTtl\<rparr>]"
    have "\<forall>k < length ?ret. expire (?ret ! k) = Now env k + cacheAddrTtl"
      using Cons.prems(1) by (auto simp: nth_append less_Suc_eq)
    from Cons.IH [OF this] Cons.prems(2) RR_A show ?thesis by simp
  next
    case (RR_AAAA hdr ip)
    with Cons show ?thesis by simp
  next
    case (RR_Other hdr)
    with Cons show ?thesis by simp
  qed
qed

text \<open>
  C5, as amended. For every host, \<open>resolveRealIP\<close> sends the AAAA query and then the A
  query to the TLS-protected upstream. If the AAAA exchange fails it returns the empty
  list, without sending the A query. If the A exchange fails it returns the dial targets
  of the AAAA records already collected. If both succeed it returns the dial targets
  \<open>JoinHostPort(ip, "443")\<close> of the AAAA records of the first response followed by those
  of the A records of the second, each list in the order of the response. The entry at
  position \<open>k\<close> expires \<open>cacheAddrTtl\<close> after the \<open>k\<close>-th reading of the clock.
\<close>

theorem resolveRealIP_targets:
  "(\<forall>err. Exchange_gfw env (query host TypeAAAA) = Inl err \<longrightarrow>
      resolveRealIP env host =
        ([], [Exchange gfwDNS (query host TypeAAAA), Log WarnLevel [] (Some err)])) \<and>
   (\<forall>r err. Exchange_gfw env (query host TypeAAAA) = Inr r \<and>
      Exchange_gfw env (query host TypeA) = Inl err \<longrightarrow>
      map addr (fst (resolveRealIP env host)) = targets_AAAA env (Answer r) \<and>
      snd (resolveRealIP env host) =
        [Exchange gfwDNS (query host TypeAAAA), Exchange gfwDNS (query host TypeA),
         Log WarnLevel [] (Some err)]) \<and>
   (\<forall>r r'. Exchange_gfw env (query host TypeAAAA) = Inr r \<and>
      Exchange_gfw env (query host TypeA) = Inr r' \<longrightarrow>
      map addr (fst (resolveRealIP env host)) =
        targets_AAAA env (Answer r) @ targets_A env (Answer r') \<and>
      snd (resolveRealIP env host) =
        [Exchange gfwDNS (query host TypeAAAA), Exchange gfwDNS (query host TypeA)]) \<and>
   (\<forall>k < length (fst (resolveRealIP env host)).
      expire (fst (resolveRealIP env host) ! k) = Now env k + cacheAddrTtl)"
proof (intro conjI allI impI)
  fix k assume k: "k < length (fst (resolveRealIP env host))"
  have base: "\<forall>k < length ([]::Resolv list). expire ([] ! k) = Now env k + cacheAddrTtl" by simp
  have mid: "\<forall>k < length (append_AAAA env [] ans). expire (append_AAAA env [] ans ! k) = Now env k + cacheAddrTtl" for ans
    using expire_append_AAAA [OF base] by blast
  show "expire (fst (resolveRealIP env host) ! k) = Now env k + cacheAddrTtl"
    using k expire_append_AAAA [OF base] expire_append_A [OF mid]
    by (auto simp: resolveRealIP_def Let_def split: sum.splits)
qed (auto simp: resolveRealIP_def Let_def addr_append_AAAA addr_append_A)

lemma example_resolver_AAAA:
  "Exchange_gfw example_resolver (query ''www.example.com'' TypeAAAA) =
     Inr (new_Msg\<lparr>Response := True,
            Answer := [RR_AAAA \<lparr>Hdr_Name = ''www.example.com.'', Rrtype = TypeAAAA,
                                Class = ClassINET, Ttl = 300, Rdlength = 16\<rparr> IPv6loopback]\<rparr>)"
  by (simp add: example_resolver_def query_def Fqdn_def)

lemma example_resolver_A:
  "Exchange_gfw example_resolver (query ''www.example.com'' TypeA) = Inl (Failure ''i/o timeout'')"
  by (simp add: example_resolver_def query_def TypeA_neq_TypeAAAA)

lemma resolveRealIP_example:
  "fst (resolveRealIP example_resolver ''www.example.com'') =
     [\<lparr>addr = ''[::1]:443'', expire = 1000 + cacheAddrTtl\<rparr>]"
  by (simp add: resolveRealIP_def example_resolver_AAAA example_resolver_A)
     (simp add: example_resolver_def JoinHostPort_def)

text \<open>
  C5 as stated fails: when the AAAA exchange succeeds with a record and the A exchange
  fails with a network error, the result is not empty.
\<close>

theorem resolveRealIP_error_counterexample:
  "isl (Exchange_gfw example_resolver (query ''www.example.com'' TypeA)) \<and>
   fst (resolveRealIP example_resolver ''www.example.com'') \<noteq> []"
  by (simp add: example_resolver_A resolveRealIP_example)

lemma resolveRealIP_example_dual:
  "fst (resolveRealIP example_resolver_dual ''www.example.com'') =
     [\<lparr>addr = ''[::1]:443'', expire = 1000 + cacheAddrTtl\<rparr>,
      \<lparr>addr = ''1.2.3.4:443'', expire = 1001 + cacheAddrTtl\<rparr>]"
  by (simp add: resolveRealIP_def example_resolver_dual_def query_def TypeA_neq_TypeAAAA
      JoinHostPort_def IPv4_def IPv6loopback_def)

text \<open>The theorem for an upstream that is down, one that fails on the A query, and one that answers both.\<close>

theorem resolveRealIP_targets_witness:
  "(Exchange_gfw example_resolver_down (query ''www.example.com'' TypeAAAA) =
      Inl (Failure ''i/o timeout'') \<and>
    resolveRealIP example_resolver_down ''www.example.com'' =
      ([], [Exchange gfwDNS (query ''www.example.com'' TypeAAAA),
            Log WarnLevel [] (Some (Failure ''i/o timeout''))])) \<and>
   (Exchange_gfw example_resolver (query ''www.example.com'' TypeAAAA) =
      Inr (new_Msg\<lparr>Response := True,
            Answer := [RR_AAAA \<lparr>Hdr_Name = ''www.example.com.'', Rrtype = TypeAAAA,
                                Class = ClassINET, Ttl = 300, Rdlength = 16\<rparr> IPv6loopback]\<rparr>) \<and>
    Exchange_gfw example_resolver (query ''www.example.com'' TypeA) =
      Inl (Failure ''i/o timeout'') \<and>
    map addr (fst (resolveRealIP example_resolver ''www.example.com'')) = [''[::1]:443'']) \<and>
   (\<not> isl (Exchange_gfw example_resolver_dual (query ''www.example.com'' TypeAAAA)) \<and>
    \<not> isl (Exchange_gfw example_resolver_dual (query ''www.example.com'' TypeA)) \<and>
    map addr (fst (resolveRealIP example_resolver_dual ''www.example.com'')) =
      [''[::1]:443'', ''1.2.3.4:443''] \<and>
    1 < length (fst (resolveRealIP example_resolver_dual ''www.example.com'')) \<and>
    expire (fst (resolveRealIP example_resolver_dual ''www.example.com'') ! 1) =
      1001 + cacheAddrTtl)"
proof -
  have down: "Exchange_gfw example_resolver_down (query ''www.example.com'' TypeAAAA) =
      Inl (Failure ''i/o timeout'')"
    by (simp add: example_resolver_down_def)
  have dual: "\<not> isl (Exchange_gfw example_resolver_dual (query ''www.example.com'' TypeAAAA))"
    "\<not> isl (Exchange_gfw example_resolver_dual (query ''www.example.com'' TypeA))"
    by (simp_all add: example_resolver_dual_def query_def)
  show ?thesis
    using resolveRealIP_targets [of example_resolver_down "''www.example.com''"]
      resolveRealIP_targets [of example_resolver "''www.example.com''"]
      resolveRealIP_targets [of example_resolver_dual "''www.example.com''"]
    by (simp add: down dual example_resolver_AAAA example_resolver_A resolveRealIP_example
        resolveRealIP_example_dual)
qed

section \<open>The policy store\<close>








section \<open>Case of policy entries and cache keys\<close>

lemma set_TrimLeft_skip: "set (TrimLeft_skip k s) \<subseteq> set s"
  by (induction s arbitrary: k) auto

lemma set_TrimRight_skip: "set (TrimRight_skip k s) \<subseteq> set s"
proof (induction s arbitrary: k)
  case Nil
  then show ?case by simp
next
  case (Cons c cs)
  have "set (TrimRight_skip j cs) \<subseteq> insert c (set cs)" for j
    using Cons.IH [of j] by blast
  then show ?case by (simp del: rev.simps)
qed

lemma set_TrimSpace: "set (TrimSpace s) \<subseteq> set s"
  using set_TrimRight_skip [of 0 "rev (TrimLeft_skip 0 s)"] set_TrimLeft_skip [of 0 s]
  by (auto simp: TrimSpace_def)

lemma set_dropCR: "set (dropCR d) \<subseteq> set d"
  by (auto simp: dropCR_def dest: in_set_butlastD)

lemma set_Scan: "t \<in> set (Scan cur rest) \<Longrightarrow> set t \<subseteq> set cur \<union> set rest"
proof (induction rest arbitrary: cur)
  case Nil
  then show ?case using set_dropCR [of cur] by (auto split: if_splits)
next
  case (Cons c cs)
  show ?case
  proof (cases "MaxScanTokenSize \<le> length cur")
    case True
    with Cons.prems show ?thesis by simp
  next
    case False
    show ?thesis
    proof (cases "c = CHR 0x0A")
      case True
      with False Cons.prems have "t = dropCR cur \<or> t \<in> set (Scan [] cs)" by simp
      then show ?thesis
      proof
        assume "t = dropCR cur"
        then show ?thesis using set_dropCR [of cur] by auto
      next
        assume "t \<in> set (Scan [] cs)"
        from Cons.IH [OF this] show ?thesis by auto
      qed
    next
      case c: False
      with False Cons.prems have "t \<in> set (Scan (cur @ [c]) cs)" by simp
      from Cons.IH [OF this] show ?thesis by auto
    qed
  qed
qed

lemma ToLower_fixed_iff: "ToLower s = s \<longleftrightarrow> (\<forall>c \<in> set s. lower c = c)"
  by (induction s) (auto simp: ToLower_def)

lemma updateConfig_entries:
  assumes "updateConfig (Opened content close) = Return policy" and "d \<in> policy"
  shows "d \<noteq> [] \<and> set d \<subseteq> set content"
proof -
  from assms obtain t where t: "t \<in> set (Scan [] content)" and d: "d = TrimSpace t" "d \<noteq> []"
    by (auto simp: updateConfig_def split: option.splits)
  from set_Scan [OF t] have "set t \<subseteq> set content" by simp
  with set_TrimSpace [of t] d show ?thesis by auto
qed

lemma resolve_and_dial_keys:
  "resolve_and_dial env cacheResolv host = (cacheResolv', ev) \<Longrightarrow>
   cacheResolv' key \<noteq> cacheResolv key \<Longrightarrow> key = host"
  by (auto simp: resolve_and_dial_def split: prod.splits option.splits if_splits)

lemma forwardTls_keys:
  "forwardTls ps env policy cacheResolv hs host = Some (cacheResolv', ev) \<Longrightarrow>
   cacheResolv' key \<noteq> cacheResolv key \<Longrightarrow> key = host"
  by (auto simp: forwardTls_def split: option.splits bool.splits prod.splits
      dest: resolve_and_dial_keys)

lemma white_space_append: "white_space a \<Longrightarrow> white_space b \<Longrightarrow> white_space (a @ b)"
proof (induction rule: white_space.induct)
  case white_space_Nil
  then show ?case by simp
next
  case (white_space_rune r s)
  from white_space_rune.hyps(1) white_space_rune.IH [OF white_space_rune.prems]
  have "white_space (r @ (s @ b))" by (rule white_space.white_space_rune)
  then show ?case by simp
qed

lemma white_space_single: "r \<in> set space_runes \<Longrightarrow> white_space r"
  using white_space_rune [of r "[]"] white_space_Nil by simp

lemma unicode_spaces_nonempty: "p \<in> set unicode_spaces \<Longrightarrow> p \<noteq> []"
  by (auto simp: unicode_spaces_def)

lemma space_runes_nonempty: "r \<in> set space_runes \<Longrightarrow> r \<noteq> []"
  by (auto simp: space_runes_def dest: unicode_spaces_nonempty)

lemma asciiSpace_rune: "asciiSpace c \<Longrightarrow> [c] \<in> set space_runes"
  by (auto simp: asciiSpace_def space_runes_def)

lemma rune_cases:
  "r \<in> set space_runes \<Longrightarrow> (\<exists>c. r = [c] \<and> asciiSpace c) \<or> r \<in> set unicode_spaces"
  by (auto simp: space_runes_def asciiSpace_def)

lemma space_width_pos:
  assumes "0 < space_width s"
  shows "space_width s \<le> length s \<and> take (space_width s) s \<in> set space_runes"
proof (cases s)
  case Nil
  with assms show ?thesis by (simp add: space_width_def)
next
  case (Cons c cs)
  show ?thesis
  proof (cases "asciiSpace c")
    case True
    with Cons show ?thesis by (simp add: space_width_def asciiSpace_rune)
  next
    case False
    with Cons assms obtain p where p: "find (HasPrefix s) unicode_spaces = Some p"
      and w: "space_width s = length p"
      by (auto simp: space_width_def split: option.splits)
    from p have "p \<in> set unicode_spaces" and "HasPrefix s p"
      by (auto simp: find_Some_iff)
    then show ?thesis using w by (auto simp: HasPrefix_def space_runes_def)
  qed
qed

lemma space_width_zero:
  assumes "space_width s = 0" and "r \<in> set space_runes"
  shows "\<not> HasPrefix s r"
proof
  assume h: "HasPrefix s r"
  from assms(2) have ne: "r \<noteq> []" by (rule space_runes_nonempty)
  with h obtain c cs where s: "s = c # cs" by (cases s) (auto simp: HasPrefix_def)
  from rune_cases [OF assms(2)] show False
  proof
    assume "\<exists>c'. r = [c'] \<and> asciiSpace c'"
    then obtain c' where "r = [c']" "asciiSpace c'" by blast
    with h s have "asciiSpace c" by (simp add: HasPrefix_def)
    with s assms(1) show False by (simp add: space_width_def)
  next
    assume u: "r \<in> set unicode_spaces"
    show False
    proof (cases "asciiSpace c")
      case True
      with s assms(1) show False by (simp add: space_width_def)
    next
      case False
      from u h have "find (HasPrefix s) unicode_spaces \<noteq> None"
        by (auto simp: find_None_iff)
      then obtain p where p: "find (HasPrefix s) unicode_spaces = Some p" by auto
      then have "p \<in> set unicode_spaces" by (auto simp: find_Some_iff)
      then have "p \<noteq> []" by (rule unicode_spaces_nonempty)
      with p False s assms(1) show False by (simp add: space_width_def)
    qed
  qed
qed

lemma drop_last: "s \<noteq> [] \<Longrightarrow> drop (length s - 1) s = [last s]"
  by (cases s rule: rev_cases) simp_all

lemma space_width_end_pos:
  assumes "0 < space_width_end s"
  shows "space_width_end s \<le> length s \<and>
         drop (length s - space_width_end s) s \<in> set space_runes"
proof (cases "s = []")
  case True
  with assms show ?thesis by (simp add: space_width_end_def)
next
  case ne: False
  show ?thesis
  proof (cases "asciiSpace (last s)")
    case True
    have "drop (length s - 1) s = [last s]"
      using ne by (rule drop_last)
    with True ne show ?thesis
      by (simp add: space_width_end_def asciiSpace_rune Suc_leI)
  next
    case False
    with ne assms obtain p where p: "find (HasSuffix s) unicode_spaces = Some p"
      and w: "space_width_end s = length p"
      by (auto simp: space_width_end_def split: option.splits)
    from p have "p \<in> set unicode_spaces" and "HasSuffix s p"
      by (auto simp: find_Some_iff)
    then show ?thesis using w by (auto simp: HasSuffix_def space_runes_def)
  qed
qed

lemma space_width_end_zero:
  assumes "space_width_end s = 0" and "r \<in> set space_runes"
  shows "\<not> HasSuffix s r"
proof
  assume h: "HasSuffix s r"
  from assms(2) have ne: "r \<noteq> []" by (rule space_runes_nonempty)
  with h have sne: "s \<noteq> []" by (auto simp: HasSuffix_def)
  from rune_cases [OF assms(2)] show False
  proof
    assume "\<exists>c'. r = [c'] \<and> asciiSpace c'"
    then obtain c' where r: "r = [c']" and a: "asciiSpace c'" by blast
    from h r have "drop (length s - 1) s = [c']" by (simp add: HasSuffix_def)
    moreover have "drop (length s - 1) s = [last s]"
      using sne by (rule drop_last)
    ultimately have "last s = c'" by simp
    with a sne assms(1) show False by (simp add: space_width_end_def)
  next
    assume u: "r \<in> set unicode_spaces"
    show False
    proof (cases "asciiSpace (last s)")
      case True
      with sne assms(1) show False by (simp add: space_width_end_def)
    next
      case False
      from u h have "find (HasSuffix s) unicode_spaces \<noteq> None"
        by (auto simp: find_None_iff)
      then obtain p where p: "find (HasSuffix s) unicode_spaces = Some p" by auto
      then have "p \<in> set unicode_spaces" by (auto simp: find_Some_iff)
      then have "p \<noteq> []" by (rule unicode_spaces_nonempty)
      with p False sne assms(1) show False by (simp add: space_width_end_def)
    qed
  qed
qed


lemma no_prefix_Nil: "r \<in> set space_runes \<Longrightarrow> \<not> HasPrefix [] r"
  by (auto simp: HasPrefix_def dest: space_runes_nonempty)

lemma TrimLeft_skip_decomp:
  "k \<le> length s \<Longrightarrow>
   \<exists>ws. drop k s = ws @ TrimLeft_skip k s \<and> white_space ws \<and>
        (\<forall>r \<in> set space_runes. \<not> HasPrefix (TrimLeft_skip k s) r)"
proof (induction s arbitrary: k)
  case Nil
  then show ?case using white_space_Nil no_prefix_Nil by auto
next
  case (Cons c cs)
  show ?case
  proof (cases k)
    case (Suc j)
    with Cons.prems have "j \<le> length cs" by simp
    from Cons.IH [OF this] Suc show ?thesis by simp
  next
    case 0
    show ?thesis
    proof (cases "space_width (c # cs) = 0")
      case True
      with 0 show ?thesis using white_space_Nil space_width_zero [OF True] by auto
    next
      case False
      let ?w = "space_width (c # cs)"
      from False have pos: "0 < ?w" by simp
      from space_width_pos [OF pos] have le: "?w \<le> length (c # cs)"
        and rune: "take ?w (c # cs) \<in> set space_runes" by simp_all
      from le pos have "?w - 1 \<le> length cs" by simp
      from Cons.IH [OF this] obtain ws where ws: "drop (?w - 1) cs = ws @ TrimLeft_skip (?w - 1) cs"
        "white_space ws"
        "\<forall>r \<in> set space_runes. \<not> HasPrefix (TrimLeft_skip (?w - 1) cs) r"
        by blast
      have res: "TrimLeft_skip k (c # cs) = TrimLeft_skip (?w - 1) cs" using 0 False by simp
      have "drop ?w (c # cs) = drop (?w - 1) cs" using pos by (cases ?w) simp_all
      then have "c # cs = take ?w (c # cs) @ ws @ TrimLeft_skip (?w - 1) cs"
        using ws(1) append_take_drop_id [of ?w "c # cs"] by simp
      moreover have "white_space (take ?w (c # cs) @ ws)"
        using rune ws(2) by (rule white_space_rune)
      ultimately show ?thesis using ws(3) 0 res
        by (intro exI [of _ "take ?w (c # cs) @ ws"]) simp
    qed
  qed
qed

lemma no_suffix_Nil: "r \<in> set space_runes \<Longrightarrow> \<not> HasSuffix [] r"
  by (auto simp: HasSuffix_def dest: space_runes_nonempty)

lemma TrimRight_skip_decomp:
  "k \<le> length s \<Longrightarrow>
   \<exists>ws. drop k s = ws @ TrimRight_skip k s \<and> white_space (rev ws) \<and>
        (\<forall>r \<in> set space_runes. \<not> HasSuffix (rev (TrimRight_skip k s)) r)"
proof (induction s arbitrary: k)
  case Nil
  then show ?case using white_space_Nil no_suffix_Nil by auto
next
  case (Cons c cs)
  show ?case
  proof (cases k)
    case (Suc j)
    with Cons.prems have "j \<le> length cs" by simp
    from Cons.IH [OF this] Suc show ?thesis by simp
  next
    case 0
    show ?thesis
    proof (cases "space_width_end (rev (c # cs)) = 0")
      case True
      have "TrimRight_skip k (c # cs) = c # cs" using 0 True by simp
      with 0 show ?thesis using white_space_Nil space_width_end_zero [OF True] by auto
    next
      case False
      let ?w = "space_width_end (rev (c # cs))"
      from False have pos: "0 < ?w" by simp
      from space_width_end_pos [OF pos] have le: "?w \<le> length (c # cs)"
        and rune: "drop (length (rev (c # cs)) - ?w) (rev (c # cs)) \<in> set space_runes"
        by simp_all
      have "drop (length (rev (c # cs)) - ?w) (rev (c # cs)) = rev (take ?w (c # cs))"
        using le by (simp add: drop_rev del: rev.simps)
      with rune have rune': "rev (take ?w (c # cs)) \<in> set space_runes" by simp
      from le pos have "?w - 1 \<le> length cs" by simp
      from Cons.IH [OF this] obtain ws where ws: "drop (?w - 1) cs = ws @ TrimRight_skip (?w - 1) cs"
        "white_space (rev ws)"
        "\<forall>r \<in> set space_runes. \<not> HasSuffix (rev (TrimRight_skip (?w - 1) cs)) r"
        by blast
      have res: "TrimRight_skip k (c # cs) = TrimRight_skip (?w - 1) cs"
        using 0 False by (simp del: rev.simps)
      have "drop ?w (c # cs) = drop (?w - 1) cs" using pos by (cases ?w) simp_all
      then have "c # cs = take ?w (c # cs) @ ws @ TrimRight_skip (?w - 1) cs"
        using ws(1) append_take_drop_id [of ?w "c # cs"] by simp
      moreover have "white_space (rev (take ?w (c # cs) @ ws))"
        using white_space_append [OF ws(2) white_space_single [OF rune']] by simp
      ultimately show ?thesis using ws(3) 0 res
        by (intro exI [of _ "take ?w (c # cs) @ ws"]) (simp del: rev.simps)
    qed
  qed
qed

lemma TrimSpace_decomp:
  "\<exists>ws1 ws2. s = ws1 @ TrimSpace s @ ws2 \<and> white_space ws1 \<and> white_space ws2 \<and>
             trimmed (TrimSpace s)"
proof -
  let ?t = "TrimLeft_skip 0 s"
  from TrimLeft_skip_decomp [of 0 s] obtain ws1 where l: "s = ws1 @ ?t" "white_space ws1"
    "\<forall>r \<in> set space_runes. \<not> HasPrefix ?t r" by auto
  from TrimRight_skip_decomp [of 0 "rev ?t"] obtain wsr where
    r: "rev ?t = wsr @ TrimRight_skip 0 (rev ?t)" "white_space (rev wsr)"
    "\<forall>r \<in> set space_runes. \<not> HasSuffix (TrimSpace s) r"
    by (auto simp: TrimSpace_def)
  from r(1) have "rev (rev ?t) = rev (wsr @ TrimRight_skip 0 (rev ?t))" by simp
  then have t: "?t = TrimSpace s @ rev wsr" by (simp add: TrimSpace_def)
  have "\<not> HasPrefix (TrimSpace s) r" if "r \<in> set space_runes" for r
  proof
    assume "HasPrefix (TrimSpace s) r"
    then have "HasPrefix (TrimSpace s @ rev wsr) r" by (auto simp: HasPrefix_def)
    with t have "HasPrefix ?t r" by simp
    with l(3) that show False by blast
  qed
  with r(3) have "trimmed (TrimSpace s)" by (auto simp: trimmed_def)
  moreover from l(1) t have "s = ws1 @ TrimSpace s @ rev wsr" by simp
  ultimately show ?thesis using l(2) r(2) by blast
qed

lemma dropCR_decomp:
  "\<exists>cr. data = dropCR data @ cr \<and> (cr = [] \<or> cr = [CHR 0x0D])"
proof (cases "data \<noteq> [] \<and> last data = CHR 0x0D")
  case True
  then have "data = butlast data @ [CHR 0x0D]" using append_butlast_last_id [of data] by simp
  with True show ?thesis by (auto simp: dropCR_def)
next
  case False
  then show ?thesis by (auto simp: dropCR_def)
qed

lemma Scan_decomp:
  "CHR 0x0A \<notin> set cur \<Longrightarrow> l \<in> set (Scan cur rest) \<Longrightarrow>
   \<exists>pre cr post. cur @ rest = pre @ l @ cr @ post \<and> CHR 0x0A \<notin> set l \<and>
     (cr = [] \<or> cr = [CHR 0x0D]) \<and> (pre = [] \<or> last pre = CHR 0x0A) \<and>
     (post = [] \<or> hd post = CHR 0x0A)"
proof (induction rest arbitrary: cur)
  case Nil
  then have l: "l = dropCR cur" by (auto split: if_splits)
  from dropCR_decomp [of cur] obtain cr where cr: "cur = dropCR cur @ cr" "cr = [] \<or> cr = [CHR 0x0D]"
    by blast
  have "CHR 0x0A \<notin> set l" using l Nil.prems(1) set_dropCR [of cur] by auto
  with l cr show ?case
    by (intro exI [of _ "[]"] exI [of _ cr]) auto
next
  case (Cons c cs)
  show ?case
  proof (cases "MaxScanTokenSize \<le> length cur")
    case True
    with Cons.prems show ?thesis by simp
  next
    case short: False
    show ?thesis
    proof (cases "c = CHR 0x0A")
      case True
      with short Cons.prems have "l = dropCR cur \<or> l \<in> set (Scan [] cs)" by simp
      then show ?thesis
      proof
        assume l: "l = dropCR cur"
        from dropCR_decomp [of cur] obtain cr where
          cr: "cur = dropCR cur @ cr" "cr = [] \<or> cr = [CHR 0x0D]" by blast
        have nl: "CHR 0x0A \<notin> set l" using l Cons.prems(1) set_dropCR [of cur] by auto
        have "cur @ c # cs = [] @ l @ cr @ (c # cs)" using l cr(1) by simp
        with nl cr(2) True show ?thesis
          by (intro exI [of _ "[]"] exI [of _ cr] exI [of _ "c # cs"]) simp
      next
        assume "l \<in> set (Scan [] cs)"
        from Cons.IH [OF _ this] obtain pre cr post where
          d: "[] @ cs = pre @ l @ cr @ post" "CHR 0x0A \<notin> set l" "cr = [] \<or> cr = [CHR 0x0D]"
            "pre = [] \<or> last pre = CHR 0x0A" "post = [] \<or> hd post = CHR 0x0A"
          by auto
        have "cur @ c # cs = (cur @ c # pre) @ l @ cr @ post" using d(1) by simp
        moreover have "last (cur @ c # pre) = CHR 0x0A" using d(4) True by auto
        ultimately show ?thesis using d(2,3,5)
          by (intro exI [of _ "cur @ c # pre"] exI [of _ cr] exI [of _ post]) simp
      qed
    next
      case False
      with short Cons.prems have in': "l \<in> set (Scan (cur @ [c]) cs)" by simp
      have "CHR 0x0A \<notin> set (cur @ [c])" using Cons.prems(1) False by auto
      from Cons.IH [OF this in'] show ?thesis by simp
    qed
  qed
qed

lemma updateConfig_trimmed_line:
  assumes "updateConfig (Opened content close) = Return policy" and "d \<in> policy"
  shows "trimmed_line_of content d"
proof -
  from assms obtain l where l: "l \<in> set (Scan [] content)" and d: "d = TrimSpace l"
    by (auto simp: updateConfig_def split: option.splits)
  from Scan_decomp [OF _ l] obtain pre cr post where
    s: "content = pre @ l @ cr @ post" "CHR 0x0A \<notin> set l" "cr = [] \<or> cr = [CHR 0x0D]"
      "pre = [] \<or> last pre = CHR 0x0A" "post = [] \<or> hd post = CHR 0x0A"
    by auto
  from TrimSpace_decomp [of l] d obtain ws1 ws2 where
    t: "l = ws1 @ d @ ws2" "white_space ws1" "white_space ws2" "trimmed d"
    by blast
  have "[CHR 0x0D] \<in> set space_runes" by (simp add: space_runes_def)
  then have "white_space [CHR 0x0D]" by (rule white_space_single)
  with s(3) white_space_Nil have "white_space cr" by auto
  with t(3) have w2: "white_space (ws2 @ cr)" by (rule white_space_append)
  have nl: "CHR 0x0A \<notin> set (ws1 @ d @ ws2 @ cr)" using s(2,3) t(1) by auto
  have "content = pre @ ws1 @ d @ (ws2 @ cr) @ post" using s(1) t(1) by simp
  with s(4,5) t(2,4) w2 nl show ?thesis
    unfolding trimmed_line_of_def
    by (intro exI [of _ pre] exI [of _ ws1] exI [of _ "ws2 @ cr"] exI [of _ post]) simp
qed


lemma resolve_and_dial_lookup:
  assumes "c1 host = c2 host"
  shows "snd (resolve_and_dial env c1 host) = snd (resolve_and_dial env c2 host) \<and>
         fst (resolve_and_dial env c1 host) host = fst (resolve_and_dial env c2 host) host"
proof -
  have "dial_cached env c1 host = dial_cached env c2 host"
    using assms by (simp add: dial_cached_def)
  then show ?thesis
    using assms
    by (auto simp: resolve_and_dial_def split: prod.splits option.splits)
qed

lemma forwardTls_lookup:
  assumes "forwardTls ps env pol c1 hs host = Some (c1', ev)" and "c1 host = c2 host"
  shows "\<exists>c2'. forwardTls ps env pol c2 hs host = Some (c2', ev) \<and> c2' host = c1' host"
proof -
  have r: "snd (resolve_and_dial env c1 host) = snd (resolve_and_dial env c2 host) \<and>
         fst (resolve_and_dial env c1 host) host = fst (resolve_and_dial env c2 host) host"
    using assms(2) by (rule resolve_and_dial_lookup)
  show ?thesis
  proof (cases "resolve_and_dial env c1 host")
    case f1: (Pair a1 b1)
    show ?thesis
    proof (cases "resolve_and_dial env c2 host")
      case f2: (Pair a2 b2)
      with f1 r have "b1 = b2" "a1 host = a2 host" by simp_all
      with f1 f2 assms show ?thesis
        by (auto simp: forwardTls_def split: option.splits bool.splits)
    qed
  qed
qed

text \<open>
  C9, as amended. Every string stored as a policy entry is a line of the configuration
  file with its leading and trailing white space removed, byte for byte in the case it is
  written, and is not empty; so it equals its own lowercasing whenever the file content
  does. The resolution cache is keyed by the server name as received: the only key
  \<open>forwardTls\<close> stores under is the SNI of the connection, which equals its own
  lowercasing whenever the SNI does, and the only entry it reads is the one under that
  SNI. Nothing is lowercased by the code.
\<close>

theorem policy_and_cache_keys_as_written:
  "(\<forall>content close d. updateConfig (Opened content close) = Return policy \<and> d \<in> policy \<longrightarrow>
      d \<noteq> [] \<and> trimmed_line_of content d \<and> set d \<subseteq> set content \<and>
      (ToLower content = content \<longrightarrow> ToLower d = d)) \<and>
   (\<forall>cacheResolv' ev key.
      forwardTls ps env pol cacheResolv hs host = Some (cacheResolv', ev) \<and>
      cacheResolv' key \<noteq> cacheResolv key \<longrightarrow>
      key = host \<and> (ToLower host = host \<longrightarrow> ToLower key = key)) \<and>
   (\<forall>cacheResolv' ev other.
      forwardTls ps env pol cacheResolv hs host = Some (cacheResolv', ev) \<and>
      cacheResolv host = other host \<longrightarrow>
      (\<exists>other'. forwardTls ps env pol other hs host = Some (other', ev) \<and>
                other' host = cacheResolv' host))"
proof (intro conjI allI impI)
  fix content close d
  assume a: "updateConfig (Opened content close) = Return policy \<and> d \<in> policy"
  then have e: "d \<noteq> [] \<and> set d \<subseteq> set content" using updateConfig_entries by blast
  then show "d \<noteq> []" and "set d \<subseteq> set content" by simp_all
  from a show "trimmed_line_of content d" using updateConfig_trimmed_line by blast
  assume "ToLower content = content"
  with e show "ToLower d = d" by (auto simp: ToLower_fixed_iff)
next
  fix cacheResolv' ev key
  assume a: "forwardTls ps env pol cacheResolv hs host = Some (cacheResolv', ev) \<and>
      cacheResolv' key \<noteq> cacheResolv key"
  then show k: "key = host" using forwardTls_keys by blast
  assume "ToLower host = host"
  with k show "ToLower key = key" by simp
next
  fix cacheResolv' ev other
  assume "forwardTls ps env pol cacheResolv hs host = Some (cacheResolv', ev) \<and>
      cacheResolv host = other host"
  then show "\<exists>other'. forwardTls ps env pol other hs host = Some (other', ev) \<and>
                other' host = cacheResolv' host"
    using forwardTls_lookup [of ps env pol cacheResolv hs host cacheResolv' ev other] by blast
qed

lemma eTLD_WWW_example_com:
  "EffectiveTLDPlusOne lastLabel ''WWW.example.com'' = Inr ''example.com''"
  by code_simp

lemma needsProxy_WWW_example_com:
  "needsProxy lastLabel {''example.com''} ''WWW.example.com'' = Some True"
  by (simp add: needsProxy_def eTLD_WWW_example_com needsProxy_loop.simps slice_from_def)

lemma resolveRealIP_dual_WWW:
  "resolveRealIP example_resolver_dual ''WWW.example.com'' =
     ([\<lparr>addr = ''[::1]:443'', expire = 1000 + cacheAddrTtl\<rparr>,
       \<lparr>addr = ''1.2.3.4:443'', expire = 1001 + cacheAddrTtl\<rparr>],
      [Exchange gfwDNS (query ''WWW.example.com'' TypeAAAA),
       Exchange gfwDNS (query ''WWW.example.com'' TypeA)])"
  by (simp add: resolveRealIP_def example_resolver_dual_def query_def TypeA_neq_TypeAAAA
      JoinHostPort_def IPv4_def IPv6loopback_def)

lemma forwardTls_WWW_example_com:
  "forwardTls lastLabel example_tls_env {''example.com''} Map.empty None ''WWW.example.com'' =
     Some (Map.empty(''WWW.example.com'' \<mapsto> \<lparr>addr = ''[::1]:443'', expire = 1000 + cacheAddrTtl\<rparr>),
           [Log DebugLevel ''WWW.example.com'' None,
            LoadOrStore_resolvLock ''WWW.example.com'', Lock ''WWW.example.com'',
            Exchange gfwDNS (query ''WWW.example.com'' TypeAAAA),
            Exchange gfwDNS (query ''WWW.example.com'' TypeA),
            DialWithDialer ''[::1]:443'', Unlock ''WWW.example.com'',
            Copy_both_ways, Close_i, Close_conn])"
proof -
  have r: "resolver example_tls_env = example_resolver_dual" by (simp add: example_tls_env_def)
  have c: "dial_cached example_tls_env Map.empty ''WWW.example.com'' = (Some NoCachedAddr, [], 0)"
    by (simp add: dial_cached_def)
  have d: "Dial example_tls_env 0 ''[::1]:443'' = None" by (simp add: example_tls_env_def)
  have cl: "splice example_tls_env = [Copy_both_ways, Close_i, Close_conn]"
    by (simp add: splice_def close_i_def close_conn_def example_tls_env_def)
  have rd: "resolve_and_dial example_tls_env Map.empty ''WWW.example.com'' =
     (Map.empty(''WWW.example.com'' \<mapsto> \<lparr>addr = ''[::1]:443'', expire = 1000 + cacheAddrTtl\<rparr>),
           [LoadOrStore_resolvLock ''WWW.example.com'', Lock ''WWW.example.com'',
            Exchange gfwDNS (query ''WWW.example.com'' TypeAAAA),
            Exchange gfwDNS (query ''WWW.example.com'' TypeA),
            DialWithDialer ''[::1]:443'', Unlock ''WWW.example.com'',
            Copy_both_ways, Close_i, Close_conn])"
    by (simp add: resolve_and_dial_def c r resolveRealIP_dual_WWW d cl)
  show ?thesis
    by (simp add: forwardTls_def needsProxy_WWW_example_com needsProxy_log_True rd)
qed

lemma TrimSpace_Example_COM: "TrimSpace ''Example.COM'' = ''Example.COM''"
proof -
  have 1: "space_width ''Example.COM'' = 0"
    by (simp add: space_width_def asciiSpace_def unicode_spaces_def HasPrefix_def)
  have 2: "space_width_end ''Example.COM'' = 0"
    by (simp add: space_width_end_def asciiSpace_def unicode_spaces_def HasSuffix_def)
  show ?thesis using 1 2 by (simp add: TrimSpace_def)
qed

lemma updateConfig_Example_COM:
  "updateConfig (Opened example_config None) = Return {''Example.COM''}"
proof -
  have "Scan [] example_config = [''Example.COM'']"
    by (simp add: example_config_def dropCR_def MaxScanTokenSize_def)
  then show ?thesis by (simp add: updateConfig_def TrimSpace_Example_COM)
qed

lemma ToLower_Example_COM: "ToLower ''Example.COM'' = ''example.com''"
  by code_simp

lemma ToLower_WWW_example_com: "ToLower ''WWW.example.com'' = ''www.example.com''"
  by code_simp

text \<open>
  C9 as stated fails: the line \<open>Example.COM\<close> of the configuration file becomes the policy
  entry \<open>Example.COM\<close>, and a connection with SNI \<open>WWW.example.com\<close>, matched through
  \<open>example.com\<close>, stores its dial target under the key \<open>WWW.example.com\<close>; neither string
  equals its lowercasing.
\<close>

theorem keys_not_lowercased_counterexample:
  "updateConfig (Opened example_config None) = Return {''Example.COM''} \<and>
   ToLower ''Example.COM'' \<noteq> ''Example.COM'' \<and>
   forwardTls lastLabel example_tls_env {''example.com''} Map.empty None ''WWW.example.com'' =
     Some (Map.empty(''WWW.example.com'' \<mapsto> \<lparr>addr = ''[::1]:443'', expire = 1000 + cacheAddrTtl\<rparr>),
           [Log DebugLevel ''WWW.example.com'' None,
            LoadOrStore_resolvLock ''WWW.example.com'', Lock ''WWW.example.com'',
            Exchange gfwDNS (query ''WWW.example.com'' TypeAAAA),
            Exchange gfwDNS (query ''WWW.example.com'' TypeA),
            DialWithDialer ''[::1]:443'', Unlock ''WWW.example.com'',
            Copy_both_ways, Close_i, Close_conn]) \<and>
   ToLower ''WWW.example.com'' \<noteq> ''WWW.example.com''"
  by (simp add: updateConfig_Example_COM forwardTls_WWW_example_com ToLower_Example_COM
      ToLower_WWW_example_com del: fun_upd_apply)

lemma TrimSpace_b_example_org: "TrimSpace '' b.example.org '' = ''b.example.org''"
proof -
  have 1: "space_width '' b.example.org '' = 1" "space_width ''b.example.org '' = 0"
    by (simp_all add: space_width_def asciiSpace_def unicode_spaces_def HasPrefix_def)
  have 2: "space_width_end ''b.example.org '' = 1" "space_width_end ''b.example.org'' = 0"
    by (simp_all add: space_width_end_def asciiSpace_def unicode_spaces_def HasSuffix_def)
  have l: "TrimLeft_skip 0 '' b.example.org '' = ''b.example.org ''" using 1 by simp
  show ?thesis unfolding TrimSpace_def l using 2 by simp
qed

lemma TrimSpace_example_com: "TrimSpace ''example.com'' = ''example.com''"
proof -
  have 1: "space_width ''example.com'' = 0"
    by (simp add: space_width_def asciiSpace_def unicode_spaces_def HasPrefix_def)
  have 2: "space_width_end ''example.com'' = 0"
    by (simp add: space_width_end_def asciiSpace_def unicode_spaces_def HasSuffix_def)
  show ?thesis using 1 2 by (simp add: TrimSpace_def)
qed

lemma updateConfig_lowercase_file:
  "updateConfig (Opened example_config_lower None) = Return {''example.com'', ''b.example.org''}"
proof -
  have s: "Scan [] example_config_lower = [''example.com'', [], '' b.example.org '']"
    by (simp add: example_config_lower_def dropCR_def MaxScanTokenSize_def)
  have e: "TrimSpace [] = []" by (simp add: TrimSpace_def)
  show ?thesis
    by (simp add: updateConfig_def s e TrimSpace_example_com TrimSpace_b_example_org)
qed

lemma ToLower_example_config_lower: "ToLower example_config_lower = example_config_lower"
  unfolding example_config_lower_def by code_simp

theorem policy_and_cache_keys_as_written_witness:
  "(updateConfig (Opened example_config_lower None) = Return {''example.com'', ''b.example.org''} \<and>
    ''b.example.org'' \<in> {''example.com'', ''b.example.org''} \<and>
    trimmed_line_of example_config_lower ''b.example.org'' \<and>
    ToLower example_config_lower = example_config_lower \<and>
    ToLower ''b.example.org'' = ''b.example.org'') \<and>
   (forwardTls lastLabel example_tls_env {''example.com''} Map.empty None ''WWW.example.com'' =
     Some (Map.empty(''WWW.example.com'' \<mapsto> \<lparr>addr = ''[::1]:443'', expire = 1000 + cacheAddrTtl\<rparr>),
           [Log DebugLevel ''WWW.example.com'' None,
            LoadOrStore_resolvLock ''WWW.example.com'', Lock ''WWW.example.com'',
            Exchange gfwDNS (query ''WWW.example.com'' TypeAAAA),
            Exchange gfwDNS (query ''WWW.example.com'' TypeA),
            DialWithDialer ''[::1]:443'', Unlock ''WWW.example.com'',
            Copy_both_ways, Close_i, Close_conn]) \<and>
    (Map.empty(''WWW.example.com'' \<mapsto> \<lparr>addr = ''[::1]:443'', expire = 1000 + cacheAddrTtl\<rparr>))
      ''WWW.example.com'' \<noteq> Map.empty ''WWW.example.com'')"
proof -
  have m: "''b.example.org'' \<in> {''example.com'', ''b.example.org''}" by simp
  from policy_and_cache_keys_as_written
    [of "{''example.com'', ''b.example.org''}" lastLabel example_tls_env "{''example.com''}"
        Map.empty None "''WWW.example.com''"]
  have "trimmed_line_of example_config_lower ''b.example.org'' \<and>
        ToLower ''b.example.org'' = ''b.example.org''"
    using updateConfig_lowercase_file m ToLower_example_config_lower by blast
  then show ?thesis
    using updateConfig_lowercase_file ToLower_example_config_lower forwardTls_WWW_example_com
    by simp
qed

section \<open>The certificate mint\<close>

lemma labels_strip_label:
  "CHR ''.'' \<in> set s \<Longrightarrow> labels s = Suc (labels (strip_label s))"
proof (induction s)
  case Nil
  then show ?case by simp
next
  case (Cons x xs)
  show ?case
  proof (cases "x = CHR ''.''")
    case True
    then show ?thesis by (simp add: labels_def strip_label_def slice_from_def)
  next
    case False
    with Cons.prems have in_xs: "CHR ''.'' \<in> set xs" by simp
    then have nn: "\<not> IndexByte xs CHR ''.'' < 0" by (simp add: IndexByte_neg_iff)
    then have "nat (IndexByte xs CHR ''.'' + 1 + 1) = Suc (nat (IndexByte xs CHR ''.'' + 1))"
      by simp
    then have "strip_label (x # xs) = strip_label xs"
      using False nn by (simp add: strip_label_def slice_from_def)
    with False Cons.IH [OF in_xs] show ?thesis by (simp add: labels_def)
  qed
qed

lemma labels_after_dots: "b \<in> set (after_dots x) \<Longrightarrow> labels b < labels x"
  by (induction x) (auto simp: labels_def split: if_splits)

lemma cn_of_is_base_iff:
  assumes "EffectiveTLDPlusOne ps s = Inr base" and "s \<noteq> base"
  shows "cn_of s base = strip_label s"
    and "cn_of s base = base \<longleftrightarrow> labels s = Suc (labels base)"
proof -
  show cn: "cn_of s base = strip_label s" using assms(2) by (simp add: cn_of_def strip_label_def)
  from assms have in_after: "base \<in> set (after_dots s)"
    using EffectiveTLDPlusOne_in_strippings [of ps s base] by (simp add: label_strippings_def)
  have dot: "CHR ''.'' \<in> set s"
  proof (rule ccontr)
    assume "CHR ''.'' \<notin> set s"
    then have "after_dots s = []" by (rule after_dots_no_dot)
    with in_after show False by simp
  qed
  then have after: "after_dots s = label_strippings (strip_label s)"
    unfolding strip_label_def by (rule after_dots_first_dot)
  have l: "labels s = Suc (labels (strip_label s))" using dot by (rule labels_strip_label)
  from in_after after have "base = strip_label s \<or> base \<in> set (after_dots (strip_label s))"
    by (auto simp: label_strippings_def)
  then show "cn_of s base = base \<longleftrightarrow> labels s = Suc (labels base)"
  proof
    assume "base = strip_label s"
    with cn l show ?thesis by simp
  next
    assume "base \<in> set (after_dots (strip_label s))"
    then have "labels base < labels (strip_label s)" by (rule labels_after_dots)
    with cn l show ?thesis by auto
  qed
qed

lemma EffectiveTLDPlusOne_nonempty: "EffectiveTLDPlusOne ps s = Inr base \<Longrightarrow> s \<noteq> []"
  by (auto simp: EffectiveTLDPlusOne_def split: if_splits)

lemma getCertificate_mint:
  assumes "s \<noteq> []" "cacheCert s = None" "EffectiveTLDPlusOne ps s = Inr base"
    "cacheCert (cn_of s base) = None"
    "getCertificate ps env cacheCert s = (Inr cert, cache', ev)"
  shows "\<exists>priv serialNumber derBytes.
           GenerateKey env = Inr priv \<and> rand_Int env = Inr serialNumber \<and>
           x509_CreateCertificate env (template_of env (cn_of s base) serialNumber) priv =
             Inr derBytes \<and>
           cert = \<lparr>Certificate = [derBytes], PrivateKey = priv\<rparr> \<and>
           ev = [CreateCertificate (template_of env (cn_of s base) serialNumber) priv] \<and>
           CommonName (Subject (template_of env (cn_of s base) serialNumber)) = cn_of s base \<and>
           DNSNames (template_of env (cn_of s base) serialNumber) =
             [''*.'' @ cn_of s base, cn_of s base]"
    and "cache' = cacheCert(cn_of s base \<mapsto> cert)"
  using assms
  by (auto simp: getCertificate_def template_of_def split: sum.splits)

lemma getCertificate_cached_cn:
  assumes "getCertificate ps env c s1 = (Inr cert, c', ev)"
    and "EffectiveTLDPlusOne ps s1 = Inr b1"
    and "c s1 = None \<or> s1 = cn_of s1 b1"
  shows "c' (cn_of s1 b1) = Some cert"
  using assms
  by (auto simp: getCertificate_def split: if_splits option.splits sum.splits)

lemma getCertificate_hit:
  assumes "EffectiveTLDPlusOne ps s2 = Inr b2"
    and "c' (cn_of s2 b2) = Some cert"
    and "c' s2 = None \<or> s2 = cn_of s2 b2"
  shows "getCertificate ps env' c' s2 = (Inr cert, c', [])"
  using assms EffectiveTLDPlusOne_nonempty [OF assms(1)]
  by (auto simp: getCertificate_def split: option.splits)

text \<open>
  C1, as amended. For every ServerName that is not equal to its eTLD+1, the mint computes
  the subject and cache key \<open>cn\<close> as the ServerName without its leading label; this is
  eTLD+1 of the ServerName exactly when the ServerName is one label below its eTLD+1.
  A mint that misses the cache signs a template with common name \<open>cn\<close> and DNS names
  \<open>*.cn\<close> and \<open>cn\<close>, and stores the leaf under \<open>cn\<close>. Consequently, for every two SNIs
  \<open>s1\<close> and \<open>s2\<close> with the same \<open>cn\<close>, neither of them a key of the cache other than
  as its own \<open>cn\<close>, once the mint has returned a leaf for \<open>s1\<close> it returns the same
  leaf for \<open>s2\<close>, from the cache and without signing.
\<close>

theorem getCertificate_cn:
  "(\<forall>base. EffectiveTLDPlusOne ps s = Inr base \<and> s \<noteq> base \<longrightarrow>
      cn_of s base = strip_label s \<and>
      (cn_of s base = base \<longleftrightarrow> labels s = Suc (labels base))) \<and>
   (\<forall>base cert cache' ev.
      s \<noteq> [] \<and> cacheCert s = None \<and> EffectiveTLDPlusOne ps s = Inr base \<and>
      cacheCert (cn_of s base) = None \<and>
      getCertificate ps env cacheCert s = (Inr cert, cache', ev) \<longrightarrow>
      cache' = cacheCert(cn_of s base \<mapsto> cert) \<and>
      (\<exists>priv serialNumber derBytes.
         GenerateKey env = Inr priv \<and> rand_Int env = Inr serialNumber \<and>
         x509_CreateCertificate env (template_of env (cn_of s base) serialNumber) priv =
           Inr derBytes \<and>
         cert = \<lparr>Certificate = [derBytes], PrivateKey = priv\<rparr> \<and>
         ev = [CreateCertificate (template_of env (cn_of s base) serialNumber) priv] \<and>
         CommonName (Subject (template_of env (cn_of s base) serialNumber)) = cn_of s base \<and>
         DNSNames (template_of env (cn_of s base) serialNumber) =
           [''*.'' @ cn_of s base, cn_of s base])) \<and>
   (\<forall>b1 b2 cert c' ev.
      getCertificate ps env c s1 = (Inr cert, c', ev) \<and>
      EffectiveTLDPlusOne ps s1 = Inr b1 \<and> EffectiveTLDPlusOne ps s2 = Inr b2 \<and>
      cn_of s1 b1 = cn_of s2 b2 \<and>
      (c s1 = None \<or> s1 = cn_of s1 b1) \<and> (c' s2 = None \<or> s2 = cn_of s2 b2) \<longrightarrow>
      getCertificate ps env' c' s2 = (Inr cert, c', []))"
proof (intro conjI allI impI)
  fix base assume "EffectiveTLDPlusOne ps s = Inr base \<and> s \<noteq> base"
  then show "cn_of s base = strip_label s"
    and "cn_of s base = base \<longleftrightarrow> labels s = Suc (labels base)"
    using cn_of_is_base_iff [of ps s base] by simp_all
next
  fix base cert cache' ev
  assume a: "s \<noteq> [] \<and> cacheCert s = None \<and> EffectiveTLDPlusOne ps s = Inr base \<and>
      cacheCert (cn_of s base) = None \<and>
      getCertificate ps env cacheCert s = (Inr cert, cache', ev)"
  then show "cache' = cacheCert(cn_of s base \<mapsto> cert)"
    using getCertificate_mint(2) [of s cacheCert ps base env cert cache' ev] by simp
  from a show "\<exists>priv serialNumber derBytes.
         GenerateKey env = Inr priv \<and> rand_Int env = Inr serialNumber \<and>
         x509_CreateCertificate env (template_of env (cn_of s base) serialNumber) priv =
           Inr derBytes \<and>
         cert = \<lparr>Certificate = [derBytes], PrivateKey = priv\<rparr> \<and>
         ev = [CreateCertificate (template_of env (cn_of s base) serialNumber) priv] \<and>
         CommonName (Subject (template_of env (cn_of s base) serialNumber)) = cn_of s base \<and>
         DNSNames (template_of env (cn_of s base) serialNumber) =
           [''*.'' @ cn_of s base, cn_of s base]"
    using getCertificate_mint(1) [of s cacheCert ps base env cert cache' ev] by simp
next
  fix b1 b2 cert c' ev
  assume a: "getCertificate ps env c s1 = (Inr cert, c', ev) \<and>
      EffectiveTLDPlusOne ps s1 = Inr b1 \<and> EffectiveTLDPlusOne ps s2 = Inr b2 \<and>
      cn_of s1 b1 = cn_of s2 b2 \<and>
      (c s1 = None \<or> s1 = cn_of s1 b1) \<and> (c' s2 = None \<or> s2 = cn_of s2 b2)"
  then have g: "getCertificate ps env c s1 = (Inr cert, c', ev)"
    and e1: "EffectiveTLDPlusOne ps s1 = Inr b1" and e2: "EffectiveTLDPlusOne ps s2 = Inr b2"
    and eq: "cn_of s1 b1 = cn_of s2 b2"
    and k1: "c s1 = None \<or> s1 = cn_of s1 b1" and k2: "c' s2 = None \<or> s2 = cn_of s2 b2"
    by blast+
  have "c' (cn_of s1 b1) = Some cert" using g e1 k1 by (rule getCertificate_cached_cn)
  then have "c' (cn_of s2 b2) = Some cert" using eq by simp
  with e2 show "getCertificate ps env' c' s2 = (Inr cert, c', [])"
    using k2 by (rule getCertificate_hit)
qed


lemma cn_of_a_b_example_com: "cn_of ''a.b.example.com'' ''example.com'' = ''b.example.com''"
  by (simp add: cn_of_def slice_from_def)

lemma cn_of_www_example_com: "cn_of ''www.example.com'' ''example.com'' = ''example.com''"
  by (simp add: cn_of_def slice_from_def)

lemma cn_of_bar_example_com: "cn_of ''bar.example.com'' ''example.com'' = ''example.com''"
  by (simp add: cn_of_def slice_from_def)

lemma getCertificate_a_b_example_com:
  "getCertificate lastLabel example_mint_env Map.empty ''a.b.example.com'' =
     (Inr (cert_for ''b.example.com'' 11),
      Map.empty(''b.example.com'' \<mapsto> cert_for ''b.example.com'' 11),
      [CreateCertificate (template_of example_mint_env ''b.example.com'' 2024) 11])"
  by (simp add: getCertificate_def eTLD_a_b_example_com cn_of_a_b_example_com cert_for_def
      example_mint_env_def template_of_def)

lemma getCertificate_www_after_a_b:
  "getCertificate lastLabel example_mint_env'
     (Map.empty(''b.example.com'' \<mapsto> cert_for ''b.example.com'' 11)) ''www.example.com'' =
     (Inr (cert_for ''example.com'' 12),
      Map.empty(''b.example.com'' \<mapsto> cert_for ''b.example.com'' 11,
                ''example.com'' \<mapsto> cert_for ''example.com'' 12),
      [CreateCertificate (template_of example_mint_env' ''example.com'' 2025) 12])"
  by (simp add: getCertificate_def eTLD_www_example_com cn_of_www_example_com cert_for_def
      example_mint_env'_def template_of_def)

text \<open>
  C1 as stated fails: for \<open>a.b.example.com\<close>, whose eTLD+1 is \<open>example.com\<close>, the mint
  issues and caches the leaf for \<open>b.example.com\<close>; and after that first mint the SNI
  \<open>www.example.com\<close>, with the same eTLD+1, is not served that leaf but a newly signed
  one for \<open>example.com\<close>.
\<close>

theorem getCertificate_cn_counterexample:
  "EffectiveTLDPlusOne lastLabel ''a.b.example.com'' = Inr ''example.com'' \<and>
   ''a.b.example.com'' \<noteq> ''example.com'' \<and>
   cn_of ''a.b.example.com'' ''example.com'' = ''b.example.com'' \<and>
   getCertificate lastLabel example_mint_env Map.empty ''a.b.example.com'' =
     (Inr (cert_for ''b.example.com'' 11),
      Map.empty(''b.example.com'' \<mapsto> cert_for ''b.example.com'' 11),
      [CreateCertificate (template_of example_mint_env ''b.example.com'' 2024) 11]) \<and>
   CommonName (Subject (template_of example_mint_env ''b.example.com'' 2024)) = ''b.example.com'' \<and>
   EffectiveTLDPlusOne lastLabel ''www.example.com'' = Inr ''example.com'' \<and>
   getCertificate lastLabel example_mint_env'
     (Map.empty(''b.example.com'' \<mapsto> cert_for ''b.example.com'' 11)) ''www.example.com'' =
     (Inr (cert_for ''example.com'' 12),
      Map.empty(''b.example.com'' \<mapsto> cert_for ''b.example.com'' 11,
                ''example.com'' \<mapsto> cert_for ''example.com'' 12),
      [CreateCertificate (template_of example_mint_env' ''example.com'' 2025) 12]) \<and>
   cert_for ''example.com'' 12 \<noteq> cert_for ''b.example.com'' 11"
  by (simp add: eTLD_a_b_example_com eTLD_www_example_com cn_of_a_b_example_com
      getCertificate_a_b_example_com getCertificate_www_after_a_b del: fun_upd_apply)
     (simp add: template_of_def cert_for_def)

lemma getCertificate_www_example_com:
  "getCertificate lastLabel example_mint_env Map.empty ''www.example.com'' =
     (Inr (cert_for ''example.com'' 11),
      Map.empty(''example.com'' \<mapsto> cert_for ''example.com'' 11),
      [CreateCertificate (template_of example_mint_env ''example.com'' 2024) 11])"
  by (simp add: getCertificate_def eTLD_www_example_com cn_of_www_example_com cert_for_def
      example_mint_env_def template_of_def)

lemma labels_examples:
  "labels ''a.b.example.com'' = 4" "labels ''www.example.com'' = 3" "labels ''example.com'' = 2"
  by (simp_all add: labels_def)

theorem getCertificate_cn_witness:
  "(EffectiveTLDPlusOne lastLabel ''a.b.example.com'' = Inr ''example.com'' \<and>
    ''a.b.example.com'' \<noteq> ''example.com'' \<and>
    cn_of ''a.b.example.com'' ''example.com'' = strip_label ''a.b.example.com'' \<and>
    cn_of ''a.b.example.com'' ''example.com'' \<noteq> ''example.com'') \<and>
   (EffectiveTLDPlusOne lastLabel ''www.example.com'' = Inr ''example.com'' \<and>
    ''www.example.com'' \<noteq> ''example.com'' \<and>
    labels ''www.example.com'' = Suc (labels ''example.com'') \<and>
    cn_of ''www.example.com'' ''example.com'' = ''example.com'') \<and>
   (''www.example.com'' \<noteq> [] \<and> Map.empty ''www.example.com'' = (None :: tls_Certificate option) \<and>
    Map.empty (cn_of ''www.example.com'' ''example.com'') = (None :: tls_Certificate option) \<and>
    getCertificate lastLabel example_mint_env Map.empty ''www.example.com'' =
      (Inr (cert_for ''example.com'' 11),
       Map.empty(''example.com'' \<mapsto> cert_for ''example.com'' 11),
       [CreateCertificate (template_of example_mint_env ''example.com'' 2024) 11])) \<and>
   (EffectiveTLDPlusOne lastLabel ''bar.example.com'' = Inr ''example.com'' \<and>
    cn_of ''www.example.com'' ''example.com'' = cn_of ''bar.example.com'' ''example.com'' \<and>
    (Map.empty(''example.com'' \<mapsto> cert_for ''example.com'' 11)) ''bar.example.com'' = None \<and>
    getCertificate lastLabel example_mint_env'
      (Map.empty(''example.com'' \<mapsto> cert_for ''example.com'' 11)) ''bar.example.com'' =
      (Inr (cert_for ''example.com'' 11),
       Map.empty(''example.com'' \<mapsto> cert_for ''example.com'' 11), []))"
proof -
  note t1 = getCertificate_cn [of lastLabel "''a.b.example.com''" Map.empty example_mint_env
      Map.empty "''www.example.com''" "''bar.example.com''" example_mint_env']
  note t2 = getCertificate_cn [of lastLabel "''www.example.com''" Map.empty example_mint_env
      Map.empty "''www.example.com''" "''bar.example.com''" example_mint_env']
  have ne1: "''a.b.example.com'' \<noteq> ''example.com''" and ne2: "''www.example.com'' \<noteq> ''example.com''"
    by simp_all
  from t1 have "cn_of ''a.b.example.com'' ''example.com'' = strip_label ''a.b.example.com'' \<and>
      (cn_of ''a.b.example.com'' ''example.com'' = ''example.com'' \<longleftrightarrow>
       labels ''a.b.example.com'' = Suc (labels ''example.com''))"
    using eTLD_a_b_example_com ne1 by blast
  then have a: "cn_of ''a.b.example.com'' ''example.com'' = strip_label ''a.b.example.com'' \<and>
    cn_of ''a.b.example.com'' ''example.com'' \<noteq> ''example.com''"
    by (auto simp add: labels_examples)
  from t2 have "cn_of ''www.example.com'' ''example.com'' = ''example.com'' \<longleftrightarrow>
       labels ''www.example.com'' = Suc (labels ''example.com'')"
    using eTLD_www_example_com ne2 by blast
  then have b: "cn_of ''www.example.com'' ''example.com'' = ''example.com''"
    by (simp add: labels_examples)
  have k: "(Map.empty(''example.com'' \<mapsto> cert_for ''example.com'' 11)) ''bar.example.com'' = None"
    by simp
  have eq: "cn_of ''www.example.com'' ''example.com'' = cn_of ''bar.example.com'' ''example.com''"
    by (simp add: cn_of_www_example_com cn_of_bar_example_com)
  from t2 have c: "getCertificate lastLabel example_mint_env'
      (Map.empty(''example.com'' \<mapsto> cert_for ''example.com'' 11)) ''bar.example.com'' =
      (Inr (cert_for ''example.com'' 11),
       Map.empty(''example.com'' \<mapsto> cert_for ''example.com'' 11), [])"
    using getCertificate_www_example_com eTLD_www_example_com eTLD_bar_example_com eq k
    by blast
  have m: "getCertificate lastLabel example_mint_env Map.empty ''www.example.com'' =
      (Inr (cert_for ''example.com'' 11),
       Map.empty(''example.com'' \<mapsto> cert_for ''example.com'' 11),
       [CreateCertificate (template_of example_mint_env ''example.com'' 2024) 11])"
    by (rule getCertificate_www_example_com)
  have a1: "cn_of ''a.b.example.com'' ''example.com'' = strip_label ''a.b.example.com''"
    and a2: "cn_of ''a.b.example.com'' ''example.com'' \<noteq> ''example.com''"
    using a by blast+
  show ?thesis
    by (intro conjI eTLD_a_b_example_com eTLD_www_example_com eTLD_bar_example_com
        ne1 ne2 a1 a2 b c m k eq) (simp_all add: labels_examples)
qed

section \<open>The policy check of the TLS engine\<close>












end
